theory Spec2Isabelle
  imports Main "HOL-Library.Signed_Division" "HOL-Library.Word"
begin

section \<open>C-stack backtrace store of SWI-Prolog (src/os/pl-cstack.c)\<close>

text \<open>
  The file keeps, per thread, a ring of the \<open>SAVE_TRACES\<close> most recent labelled C-stack
  traces. It contains three stack-walker variants selected by the preprocessor
  (libunwind, glibc \<open>backtrace()\<close>, Windows dbghelp), a section shared by the three
  (crash handler, lookup by label), the debug predicates, and a fallback for platforms
  without any walker.

  Conventions of the embedding.
  \<^item> C \<open>int\<close> values (\<open>current\<close>, \<open>me\<close>, \<open>last\<close>, \<open>sig\<close>) are \<open>int\<close>; the C remainder
    \<open>%\<close> is \<open>smod\<close> (truncation towards zero). The values that occur stay within a few
    units of the ring size, far from the limits of a machine \<open>int\<close>. \<open>size_t\<close> and loop
    counters that start at 0 and only count up are \<open>nat\<close>. Code addresses are 64-bit words.
  \<^item> A \<open>btrace *\<close> is an address into an explicit heap, \<open>None\<close> being \<open>NULL\<close>; the
    thread-local \<open>LD\<close> holds such an address in \<open>btrace_store\<close>.
  \<^item> A label (\<open>const char *why\<close>) is a string taken by value; a \<open>NULL\<close> label in a slot
    (from \<open>memset\<close>) is \<open>None\<close>.
  \<^item> Reading or writing outside an array, through \<open>NULL\<close> or through a freed address is a
    \<open>fault\<close>, returned as \<open>Inl\<close>.
  \<^item> What the operating system and the C library decide (whether \<open>malloc\<close> succeeds, which
    frames the walker sees, what \<open>dladdr\<close> answers) is an explicit argument.
  \<^item> Every \<open>Sdprintf\<close> is kept as its format string and its argument list.
  \<^item> A loop whose source has no bound on the number of rounds returns an \<open>option\<close>, \<open>None\<close>
    standing for a run that does not end.

  \<open>initBackTrace\<close> and the functions on the size of the C stack at the end of the file are not
  part of this development.
\<close>

subsection \<open>Constants, faults, diagnostic output\<close>

abbreviation (input) SAVE_TRACES :: "'a::numeral" where
  "SAVE_TRACES \<equiv> 10"

abbreviation (input) MAX_DEPTH :: "'a::numeral" where
  "MAX_DEPTH \<equiv> 10"

type_synonym addr = "64 word"

datatype fault = NullDeref | OutOfBounds | BadPointer

definition bindF :: "fault + 'a \<Rightarrow> ('a \<Rightarrow> fault + 'b) \<Rightarrow> fault + 'b" where
  "bindF m f = (case m of Inl e \<Rightarrow> Inl e | Inr x \<Rightarrow> f x)"

text \<open>Arguments of a format: \<open>%s\<close>, \<open>%Ws\<close>, \<open>%d\<close>, \<open>%zd\<close>, and \<open>%p\<close> or \<open>%tx\<close>.\<close>

datatype arg = S string | W string | I int | Z nat | P addr

datatype msg = Sdprintf string "arg list" | SdprintfX string "arg list"

subsection \<open>Heap and thread-local data\<close>

record PL_local_data =
  btrace_store :: "nat option"

record 's world =
  heap :: "'s option list"
  LD :: "PL_local_data option"

text \<open>\<open>malloc(sizeof(*s))\<close> followed by \<open>memset(s, 0, sizeof(*s))\<close>: the environment says
  whether the allocation succeeds; a new cell gets the next unused address.\<close>

definition malloc :: "bool \<Rightarrow> 's \<Rightarrow> 's option list \<Rightarrow> nat option \<times> 's option list" where
  "malloc ok zeroed h = (if ok then (Some (length h), h @ [Some zeroed]) else (None, h))"

definition deref :: "'s option list \<Rightarrow> nat \<Rightarrow> 's option" where
  "deref h p = (if p < length h then h ! p else None)"

definition free :: "'s option list \<Rightarrow> nat \<Rightarrow> fault + 's option list" where
  "free h p = (case deref h p of None \<Rightarrow> Inl BadPointer | Some s \<Rightarrow> Inr (h[p := None]))"

subsection \<open>The cursor and \<open>next_btrace_id\<close>\<close>

text \<open>The three \<open>struct btrace\<close> declarations all end in \<open>int current; int shared;\<close>. These two
  fields are the parent record, so that \<open>next_btrace_id\<close>, which the source repeats
  verbatim for each structure, is one definition.\<close>

record btrace_cursor =
  current :: int
  shared :: bool

text \<open>Modelled from the spec: the macro \<open>COMPARE_AND_SWAP\<close> is declared outside this file; the
  spec calls it an atomic compare-and-exchange on the cursor. Applied to the content of the
  memory cell, it returns whether the exchange happened and the new content.\<close>

definition COMPARE_AND_SWAP :: "int \<Rightarrow> int \<Rightarrow> int \<Rightarrow> bool \<times> int" where
  "COMPARE_AND_SWAP mem old new = (if mem = old then (True, new) else (False, mem))"

text \<open>The \<open>do ... while\<close> loop of the atomic path, run without interleaving: the cell is read,
  the successor computed, and the loop repeats while the exchange fails.\<close>

function next_btrace_id_cas :: "int \<Rightarrow> int \<times> int" where
  "next_btrace_id_cas mem =
     (let current = mem;
          next = current + 1;
          next = (if next = SAVE_TRACES then 0 else next)
      in if \<not> fst (COMPARE_AND_SWAP mem current next)
         then next_btrace_id_cas (snd (COMPARE_AND_SWAP mem current next))
         else (current, snd (COMPARE_AND_SWAP mem current next)))"
  by pat_completeness auto
termination
  by (relation "{}") (auto simp: COMPARE_AND_SWAP_def Let_def)

text \<open>The plain path: \<open>current = bt->current++ % SAVE_TRACES;
  if ( bt->current >= SAVE_TRACES ) bt->current %= SAVE_TRACES;\<close>\<close>

definition next_btrace_id_plain :: "int \<Rightarrow> int \<times> int" where
  "next_btrace_id_plain mem =
     (let current = mem smod SAVE_TRACES;
          mem = mem + 1;
          mem = (if mem \<ge> SAVE_TRACES then mem smod SAVE_TRACES else mem)
      in (current, mem))"

text \<open>The first argument says whether \<open>COMPARE_AND_SWAP\<close> is defined in the build.\<close>

definition next_btrace_id ::
  "bool \<Rightarrow> 'a btrace_cursor_scheme \<Rightarrow> int \<times> 'a btrace_cursor_scheme" where
  "next_btrace_id cas bt =
     (let (cur, mem) = (if cas then next_btrace_id_cas (current bt)
                        else next_btrace_id_plain (current bt))
      in (cur, bt\<lparr>current := mem\<rparr>))"

subsection \<open>glibc variant\<close>

record btrace_glibc = btrace_cursor +
  retaddr :: "addr list option list"
  why :: "string option list"
  sizes :: "nat list"

definition zeroed_glibc :: btrace_glibc where
  "zeroed_glibc =
     \<lparr>current = 0, shared = False,
      retaddr = replicate SAVE_TRACES None,
      why = replicate SAVE_TRACES None,
      sizes = replicate SAVE_TRACES 0\<rparr>"

definition btrace_destroy_glibc ::
  "btrace_glibc world \<Rightarrow> nat \<Rightarrow> fault + btrace_glibc world" where
  "btrace_destroy_glibc w bt =
     bindF (free (heap w) bt) (\<lambda>h. Inr (w\<lparr>heap := h\<rparr>))"

definition get_trace_store_glibc ::
  "bool \<Rightarrow> bool \<Rightarrow> btrace_glibc world \<Rightarrow> nat option \<times> btrace_glibc world" where
  "get_trace_store_glibc malloc_ok create w =
     (case LD w of
        Some ld \<Rightarrow>
          (case btrace_store ld of
             None \<Rightarrow>
               (case malloc malloc_ok (zeroed_glibc\<lparr>shared := True\<rparr>) (heap w) of
                  (Some s, h) \<Rightarrow> (Some s, w\<lparr>heap := h, LD := Some (ld\<lparr>btrace_store := Some s\<rparr>)\<rparr>)
                | (None, h) \<Rightarrow> (None, w))
           | Some s \<Rightarrow> (Some s, w))
      | None \<Rightarrow>
          if create
          then (case malloc malloc_ok zeroed_glibc (heap w) of (s, h) \<Rightarrow> (s, w\<lparr>heap := h\<rparr>))
          else (None, w))"

text \<open>What one call of \<open>save_backtrace\<close> meets: the return addresses on the C stack, innermost
  first, and the outcome of its two allocations.\<close>

record capture_glibc =
  stack :: "addr list"
  malloc_store :: bool
  malloc_frames :: bool

text \<open>\<open>backtrace(array, size)\<close> of execinfo.h stores at most \<open>size\<close> return addresses and
  returns how many it stored.\<close>

definition backtrace :: "addr list \<Rightarrow> nat \<Rightarrow> addr list" where
  "backtrace stk n = take n stk"

definition save_backtrace_glibc ::
  "bool \<Rightarrow> capture_glibc \<Rightarrow> string \<Rightarrow> btrace_glibc world
     \<Rightarrow> fault + (nat option \<times> btrace_glibc world)" where
  "save_backtrace_glibc cas c label w =
     (case get_trace_store_glibc (malloc_store c) True w of
        (None, w) \<Rightarrow> Inr (None, w)
      | (Some bt, w) \<Rightarrow>
          (case deref (heap w) bt of
             None \<Rightarrow> Inl BadPointer
           | Some s \<Rightarrow>
               let (cur, s) = next_btrace_id cas s;
                   array = backtrace (stack c) 100;
                   frames = length array
               in if \<not> (0 \<le> cur \<and> cur < SAVE_TRACES) then Inl OutOfBounds
                  else
                    let s = s\<lparr>sizes := (sizes s)[nat cur := frames]\<rparr>;
                        s = s\<lparr>retaddr := (retaddr s)[nat cur :=
                                (if malloc_frames c then Some array else None)]\<rparr>;
                        s = s\<lparr>why := (why s)[nat cur := Some label]\<rparr>
                    in Inr (Some bt, w\<lparr>heap := (heap w)[bt := Some s]\<rparr>)))"

text \<open>What rendering meets: the answers of \<open>dladdr\<close>; the result of \<open>addr2line\<close>, which runs
  the helper program through \<open>popen\<close> and copies its output into \<open>buf\<close> (the text left in
  \<open>buf\<close>, or \<open>None\<close> when the function returns \<open>FALSE\<close>; the exchange with the subprocess
  is not embedded); and whether the build is for \<open>__APPLE__\<close>.\<close>

record Dl_info =
  dli_fname :: "string option"
  dli_fbase :: addr
  dli_sname :: "string option"
  dli_saddr :: addr

record render_glibc =
  dladdr :: "addr \<Rightarrow> Dl_info option"
  addr2line :: "string \<Rightarrow> addr \<Rightarrow> string option"
  APPLE :: bool

fun strstr :: "string \<Rightarrow> string \<Rightarrow> bool" where
  "strstr [] needle = (needle = [])"
| "strstr (c # cs) needle = (take (length needle) (c # cs) = needle \<or> strstr cs needle)"

definition frame_line_glibc :: "render_glibc \<Rightarrow> nat \<Rightarrow> addr \<Rightarrow> msg list" where
  "frame_line_glibc E i a =
     (case dladdr E a of
        None \<Rightarrow> []
      | Some info \<Rightarrow>
          let offset = a - dli_fbase info in
          (case dli_fname info of
             Some fname \<Rightarrow>
               (case (if strstr fname ''.so'' \<or> (APPLE E \<and> strstr fname ''.dylib'')
                      then addr2line E fname offset else None) of
                  Some buf \<Rightarrow> [Sdprintf ''  [%zd] %s [%p]\<newline>'' [Z i, S buf, P a]]
                | None \<Rightarrow>
                    (case dli_sname info of
                       Some sname \<Rightarrow>
                         [Sdprintf ''  [%zd] %s(%s+0x%tx) [%p]\<newline>''
                            [Z i, S fname, S sname, P (a - dli_saddr info), P a]]
                     | None \<Rightarrow>
                         [Sdprintf ''  [%zd] %s(+%p) [%p]\<newline>'' [Z i, S fname, P offset, P a]]))
           | None \<Rightarrow> [Sdprintf ''  [%zd] ??? [%p]\<newline>'' [Z i, P a]]))"

text \<open>The \<open>for\<close> loop of \<open>print_trace\<close> over \<open>bt->retaddr[me][i]\<close>, \<open>i < bt->sizes[me]\<close>.\<close>

definition print_frames_glibc ::
  "render_glibc \<Rightarrow> addr list option \<Rightarrow> nat \<Rightarrow> fault + msg list" where
  "print_frames_glibc E ra n =
     (if n = 0 then Inr []
      else case ra of
        None \<Rightarrow> Inl NullDeref
      | Some a \<Rightarrow>
          if n \<le> length a then Inr (concat (map (\<lambda>i. frame_line_glibc E i (a ! i)) [0..<n]))
          else Inl OutOfBounds)"

definition print_trace_glibc :: "render_glibc \<Rightarrow> btrace_glibc \<Rightarrow> int \<Rightarrow> fault + msg list" where
  "print_trace_glibc E bt me =
     (if \<not> (0 \<le> me \<and> me < SAVE_TRACES) then Inl OutOfBounds
      else case why bt ! nat me of
        Some l \<Rightarrow>
          bindF (print_frames_glibc E (retaddr bt ! nat me) (sizes bt ! nat me))
            (\<lambda>ls. Inr (Sdprintf ''C-stack trace labeled \"%s\":\<newline>'' [S l] # ls))
      | None \<Rightarrow> Inr [Sdprintf ''No stack trace\<newline>'' []])"

definition print_backtrace_glibc ::
  "render_glibc \<Rightarrow> bool \<Rightarrow> int \<Rightarrow> btrace_glibc world \<Rightarrow> (fault + msg list) \<times> btrace_glibc world" where
  "print_backtrace_glibc E malloc_ok lst w =
     (case get_trace_store_glibc malloc_ok False w of
        (Some bt, w) \<Rightarrow>
          (case deref (heap w) bt of
             None \<Rightarrow> (Inl BadPointer, w)
           | Some s \<Rightarrow>
               let me = current s - lst;
                   me = (if me < 0 then me + SAVE_TRACES else me)
               in (print_trace_glibc E s me, w))
      | (None, w) \<Rightarrow> (Inr [Sdprintf ''No backtrace store?\<newline>'' []], w))"

text \<open>The \<open>for(;;)\<close> loop of \<open>bstore_print_backtrace_named\<close>. Nothing in the loop bounds the
  number of rounds, so not returning is the value \<open>None\<close>.\<close>

partial_function (option) named_loop_glibc ::
  "render_glibc \<Rightarrow> btrace_glibc \<Rightarrow> string \<Rightarrow> int \<Rightarrow> (fault + msg list) option" where
  "named_loop_glibc E bt label me =
     (let me = (if me < 0 then me + SAVE_TRACES else me)
      in if \<not> (0 \<le> me \<and> me < SAVE_TRACES) then Some (Inl OutOfBounds)
         else if why bt ! nat me = Some label then Some (print_trace_glibc E bt me)
         else let me = me - 1
              in if me = current bt - 1
                 then Some (Inr [Sdprintf ''No backtrace named %s\<newline>'' [S label]])
                 else named_loop_glibc E bt label me)"

declare named_loop_glibc.simps [code]

definition bstore_print_backtrace_named_glibc ::
  "render_glibc \<Rightarrow> btrace_glibc world \<Rightarrow> nat option \<Rightarrow> string \<Rightarrow> (fault + msg list) option" where
  "bstore_print_backtrace_named_glibc E w bt label =
     (case bt of
        None \<Rightarrow> Some (Inr [])
      | Some p \<Rightarrow>
          (case deref (heap w) p of
             None \<Rightarrow> Some (Inl BadPointer)
           | Some s \<Rightarrow> named_loop_glibc E s label (current s - 1)))"

subsection \<open>libunwind variant\<close>

text \<open>\<open>frame_info\<close> is \<open>{ char name[32]; unw_word_t offset; }\<close>; the fields carry the prefix
  \<open>f_\<close> because \<open>btrace_stack\<close> has a \<open>name\<close> of its own. \<open>btrace_stack\<close> and \<open>btrace\<close> have the
  same shape in the libunwind and in the Windows variant, which differ in \<open>frame_info\<close>.\<close>

record frame_info =
  f_name :: string
  f_offset :: addr

record 'f btrace_stack =
  name :: "string option"
  depth :: nat
  frame :: "'f list"

record 'f btrace_dumps = btrace_cursor +
  dumps :: "'f btrace_stack list"

type_synonym btrace_unw = "frame_info btrace_dumps"

definition zeroed_unw :: btrace_unw where
  "zeroed_unw =
     \<lparr>current = 0, shared = False,
      dumps = replicate SAVE_TRACES
        \<lparr>name = None, depth = 0,
         frame = replicate MAX_DEPTH \<lparr>f_name = [], f_offset = 0\<rparr>\<rparr>\<rparr>"


definition get_trace_store_unw ::
  "bool \<Rightarrow> bool \<Rightarrow> btrace_unw world \<Rightarrow> nat option \<times> btrace_unw world" where
  "get_trace_store_unw malloc_ok create w =
     (case LD w of
        Some ld \<Rightarrow>
          (case btrace_store ld of
             None \<Rightarrow>
               (case malloc malloc_ok (zeroed_unw\<lparr>shared := True\<rparr>) (heap w) of
                  (Some s, h) \<Rightarrow> (Some s, w\<lparr>heap := h, LD := Some (ld\<lparr>btrace_store := Some s\<rparr>)\<rparr>)
                | (None, h) \<Rightarrow> (None, w))
           | Some s \<Rightarrow> (Some s, w))
      | None \<Rightarrow>
          if create
          then (case malloc malloc_ok zeroed_unw (heap w) of (s, h) \<Rightarrow> (s, w\<lparr>heap := h\<rparr>))
          else (None, w))"

text \<open>The loop \<open>for(depth=0; unw_step(&cursor) > 0 && depth < MAX_DEPTH; depth++)\<close>. The list
  holds, for each call of \<open>unw_step\<close> that returns a positive value, what
  \<open>unw_get_proc_name\<close> then stores (\<open>None\<close> when it stores nothing); the list ends where
  \<open>unw_step\<close> stops. The name buffer has 32 bytes.\<close>

fun unw_walk ::
  "(string \<times> addr) option list \<Rightarrow> nat \<Rightarrow> frame_info list \<Rightarrow> nat \<times> frame_info list" where
  "unw_walk [] k fr = (k, fr)"
| "unw_walk (st # rest) k fr =
     (if k < MAX_DEPTH
      then unw_walk rest (Suc k)
             (case st of
                None \<Rightarrow> fr
              | Some (n, off) \<Rightarrow> fr[k := \<lparr>f_name = take 31 n, f_offset = off\<rparr>])
      else (k, fr))"

definition save_backtrace_unw ::
  "bool \<Rightarrow> bool \<Rightarrow> (string \<times> addr) option list \<Rightarrow> string \<Rightarrow> btrace_unw world
     \<Rightarrow> fault + (nat option \<times> btrace_unw world)" where
  "save_backtrace_unw cas malloc_ok steps label w =
     (case get_trace_store_unw malloc_ok True w of
        (None, w) \<Rightarrow> Inr (None, w)
      | (Some bt, w) \<Rightarrow>
          (case deref (heap w) bt of
             None \<Rightarrow> Inl BadPointer
           | Some s \<Rightarrow>
               let (cur, s) = next_btrace_id cas s
               in if \<not> (0 \<le> cur \<and> cur < SAVE_TRACES) then Inl OutOfBounds
                  else
                    let d = dumps s ! nat cur;
                        (n, fr) = unw_walk steps 0 (frame d);
                        d = d\<lparr>frame := fr\<rparr>;
                        d = d\<lparr>name := Some label\<rparr>;
                        d = d\<lparr>depth := n\<rparr>
                    in Inr (Some bt,
                            w\<lparr>heap := (heap w)[bt := Some (s\<lparr>dumps := (dumps s)[nat cur := d]\<rparr>)]\<rparr>)))"

definition print_trace_unw :: "btrace_unw \<Rightarrow> int \<Rightarrow> fault + msg list" where
  "print_trace_unw bt me =
     (if \<not> (0 \<le> me \<and> me < SAVE_TRACES) then Inl OutOfBounds
      else let s = dumps bt ! nat me in
        case name s of
          Some l \<Rightarrow>
            if depth s \<le> MAX_DEPTH
            then Inr (Sdprintf ''C-stack trace labeled \"%s\":\<newline>'' [S l]
                      # map (\<lambda>i. Sdprintf ''  [%d] %s+%p\<newline>''
                                    [I (int i), S (f_name (frame s ! i)), P (f_offset (frame s ! i))])
                          [0..<depth s])
            else Inl OutOfBounds
        | None \<Rightarrow> Inr [Sdprintf ''No stack trace\<newline>'' []])"

definition print_backtrace_unw ::
  "bool \<Rightarrow> int \<Rightarrow> btrace_unw world \<Rightarrow> (fault + msg list) \<times> btrace_unw world" where
  "print_backtrace_unw malloc_ok lst w =
     (case get_trace_store_unw malloc_ok False w of
        (Some bt, w) \<Rightarrow>
          (case deref (heap w) bt of
             None \<Rightarrow> (Inl BadPointer, w)
           | Some s \<Rightarrow>
               let me = current s - lst;
                   me = (if me < 0 then me + SAVE_TRACES else me)
               in (print_trace_unw s me, w))
      | (None, w) \<Rightarrow> (Inr [Sdprintf ''No backtrace store?\<newline>'' []], w))"

text \<open>The \<open>for(;;)\<close> loop of this variant leaves by a bare \<open>break\<close> when the scan is back at
  its start.\<close>

partial_function (option) named_loop_unw ::
  "btrace_unw \<Rightarrow> string \<Rightarrow> int \<Rightarrow> (fault + msg list) option" where
  "named_loop_unw bt label me =
     (let me = (if me < 0 then me + SAVE_TRACES else me)
      in if \<not> (0 \<le> me \<and> me < SAVE_TRACES) then Some (Inl OutOfBounds)
         else if name (dumps bt ! nat me) = Some label then Some (print_trace_unw bt me)
         else let me = me - 1
              in if me = current bt - 1 then Some (Inr [])
                 else named_loop_unw bt label me)"

declare named_loop_unw.simps [code]

definition bstore_print_backtrace_named_unw ::
  "btrace_unw world \<Rightarrow> nat option \<Rightarrow> string \<Rightarrow> (fault + msg list) option" where
  "bstore_print_backtrace_named_unw w bt label =
     (case bt of
        None \<Rightarrow> Some (Inr [])
      | Some p \<Rightarrow>
          (case deref (heap w) p of
             None \<Rightarrow> Some (Inl BadPointer)
           | Some s \<Rightarrow> named_loop_unw s label (current s - 1)))"

subsection \<open>Windows variant\<close>

text \<open>\<open>frame_info\<close> here has two more fields: \<open>char module[64]\<close> and \<open>DWORD module_reason\<close>
  (\<open>name\<close> has \<open>MAX_FUNCTION_NAME_LENGTH = 32\<close> bytes).\<close>

record frame_info_win = frame_info +
  f_module :: string
  f_module_reason :: nat

type_synonym btrace_win = "frame_info_win btrace_dumps"

definition zeroed_win :: btrace_win where
  "zeroed_win =
     \<lparr>current = 0, shared = False,
      dumps = replicate SAVE_TRACES
        \<lparr>name = None, depth = 0,
         frame = replicate MAX_DEPTH
           \<lparr>f_name = [], f_offset = 0, f_module = [], f_module_reason = 0\<rparr>\<rparr>\<rparr>"


text \<open>This variant reads \<open>LD->btrace_store\<close> without testing \<open>LD\<close>, and its \<open>else if ( create )\<close>
  belongs to the test of \<open>LD->btrace_store\<close>.\<close>

definition get_trace_store_win ::
  "bool \<Rightarrow> bool \<Rightarrow> btrace_win world \<Rightarrow> fault + (nat option \<times> btrace_win world)" where
  "get_trace_store_win malloc_ok create w =
     (case LD w of
        None \<Rightarrow> Inl NullDeref
      | Some ld \<Rightarrow>
          (case btrace_store ld of
             None \<Rightarrow>
               (case malloc malloc_ok (zeroed_win\<lparr>shared := True\<rparr>) (heap w) of
                  (Some s, h) \<Rightarrow>
                    Inr (Some s, w\<lparr>heap := h, LD := Some (ld\<lparr>btrace_store := Some s\<rparr>)\<rparr>)
                | (None, h) \<Rightarrow> Inr (None, w))
           | Some p \<Rightarrow>
               if create
               then (case malloc malloc_ok zeroed_win (heap w) of (s, h) \<Rightarrow> Inr (s, w\<lparr>heap := h\<rparr>))
               else Inr (Some p, w)))"

text \<open>What \<open>backtrace\<close> meets: whether \<open>SymInitialize\<close> succeeds, whether an exception record
  was passed, and one entry for each call of \<open>StackWalk64\<close> that returns non-zero: the program
  counter, the answer of \<open>SymGetModuleInfo64\<close> (the error code, or \<open>basename\<close> of the image
  name), of \<open>dwarf_sym_from_addr\<close> and of \<open>SymFromAddr\<close>.\<close>

record raw_frame =
  pc :: addr
  module_info :: "nat + string"
  dwarf_symbol :: "string option"
  symbol :: "string option"

record walk_win =
  SymInitialize :: bool
  pExceptionInfo :: bool
  StackWalk64 :: "raw_frame list"

definition frame_of_raw :: "bool \<Rightarrow> raw_frame \<Rightarrow> frame_info_win" where
  "frame_of_raw HAVE_LIBDWARF r =
     (case module_info r of
        Inl err \<Rightarrow> \<lparr>f_name = [], f_offset = pc r, f_module = [], f_module_reason = err\<rparr>
      | Inr img \<Rightarrow>
          \<lparr>f_name =
             (case (if HAVE_LIBDWARF then dwarf_symbol r else None) of
                Some n \<Rightarrow> take 31 n
              | None \<Rightarrow> (case symbol r of Some n \<Rightarrow> take 31 n | None \<Rightarrow> [])),
           f_offset = pc r, f_module = take 63 img, f_module_reason = 0\<rparr>)"

text \<open>The loop \<open>while(depth < MAX_DEPTH && StackWalk64(...) != 0)\<close> with its \<open>skip\<close> counter.\<close>

fun StackWalk_loop ::
  "bool \<Rightarrow> raw_frame list \<Rightarrow> nat \<Rightarrow> nat \<Rightarrow> frame_info_win list \<Rightarrow> nat \<times> frame_info_win list" where
  "StackWalk_loop ld [] skip k fr = (k, fr)"
| "StackWalk_loop ld (r # rest) skip k fr =
     (if k < MAX_DEPTH
      then if skip > 0 then StackWalk_loop ld rest (skip - 1) k fr
           else StackWalk_loop ld rest skip (Suc k) (fr[k := frame_of_raw ld r])
      else (k, fr))"

definition backtrace_win ::
  "bool \<Rightarrow> walk_win \<Rightarrow> frame_info_win list \<Rightarrow> nat \<times> frame_info_win list" where
  "backtrace_win ld wk fr =
     (let skip = (if pExceptionInfo wk then 0 else 2)
      in if \<not> SymInitialize wk then (0, fr)
         else StackWalk_loop ld (StackWalk64 wk) skip 0 fr)"

text \<open>\<open>win_save_backtrace\<close>. The arguments are: whether \<open>COMPARE_AND_SWAP\<close> is defined,
  whether the build has \<open>HAVE_LIBDWARF\<close>, whether \<open>malloc\<close> succeeds, and what the walker
  meets. \<open>PL_LOCK(L_CSTACK)\<close> around the call of \<open>backtrace\<close> has no effect on a single
  thread and is left out.\<close>

definition win_save_backtrace ::
  "bool \<Rightarrow> bool \<Rightarrow> bool \<Rightarrow> walk_win \<Rightarrow> string \<Rightarrow> btrace_win world
     \<Rightarrow> fault + (nat option \<times> btrace_win world)" where
  "win_save_backtrace cas ld malloc_ok wk label w =
     bindF (get_trace_store_win malloc_ok True w)
       (\<lambda>r. case r of
          (None, w) \<Rightarrow> Inr (None, w)
        | (Some bt, w) \<Rightarrow>
            (case deref (heap w) bt of
               None \<Rightarrow> Inl BadPointer
             | Some s \<Rightarrow>
                 let (cur, s) = next_btrace_id cas s
                 in if \<not> (0 \<le> cur \<and> cur < SAVE_TRACES) then Inl OutOfBounds
                    else
                      let d = dumps s ! nat cur;
                          (n, fr) = backtrace_win ld wk (frame d);
                          d = d\<lparr>frame := fr\<rparr>;
                          d = d\<lparr>depth := n\<rparr>;
                          d = d\<lparr>name := Some label\<rparr>
                      in Inr (Some bt,
                              w\<lparr>heap := (heap w)[bt := Some (s\<lparr>dumps := (dumps s)[nat cur := d]\<rparr>)]\<rparr>)))"

text \<open>\<open>save_backtrace(why)\<close> is \<open>win_save_backtrace(why, NULL)\<close>.\<close>

definition save_backtrace_win ::
  "bool \<Rightarrow> bool \<Rightarrow> bool \<Rightarrow> walk_win \<Rightarrow> string \<Rightarrow> btrace_win world
     \<Rightarrow> fault + (nat option \<times> btrace_win world)" where
  "save_backtrace_win cas ld malloc_ok wk label w =
     win_save_backtrace cas ld malloc_ok (wk\<lparr>pExceptionInfo := False\<rparr>) label w"

text \<open>Rendering: the first argument says whether the build has \<open>HAVE_LIBDWARF\<close>, the second is
  the source line found by \<open>SymGetModuleInfo64\<close> and \<open>dwarf_addr2line\<close> together, if both
  succeed.\<close>

definition frame_line_win :: "bool \<Rightarrow> (addr \<Rightarrow> string option) \<Rightarrow> nat \<Rightarrow> frame_info_win \<Rightarrow> msg" where
  "frame_line_win ld srcline i f =
     (if f_module f \<noteq> []
      then (case (if ld then srcline (f_offset f) else None) of
              Some line \<Rightarrow>
                Sdprintf ''  [%d] <%s>:%s() at %s [%p]\<newline>''
                  [I (int i), S (f_module f), S (f_name f), S line, P (f_offset f)]
            | None \<Rightarrow>
                Sdprintf ''  [%d] <%s>:%s() [%p]\<newline>''
                  [I (int i), S (f_module f), S (f_name f), P (f_offset f)])
      else Sdprintf ''  [%d] <unknown module>:%s [%p]\<newline>''
             [I (int i), S (f_name f), P (f_offset f)])"

definition print_trace_win ::
  "bool \<Rightarrow> (addr \<Rightarrow> string option) \<Rightarrow> btrace_win \<Rightarrow> int \<Rightarrow> fault + msg list" where
  "print_trace_win ld srcline bt me =
     (if \<not> (0 \<le> me \<and> me < SAVE_TRACES) then Inl OutOfBounds
      else let s = dumps bt ! nat me in
        case name s of
          Some l \<Rightarrow>
            if depth s \<le> MAX_DEPTH
            then Inr (Sdprintf ''Stack trace labeled \"%s\":\<newline>'' [S l]
                      # map (\<lambda>i. frame_line_win ld srcline i (frame s ! i)) [0..<depth s])
            else Inl OutOfBounds
        | None \<Rightarrow> Inr [Sdprintf ''No stack trace\<newline>'' []])"

definition print_backtrace_win ::
  "bool \<Rightarrow> (addr \<Rightarrow> string option) \<Rightarrow> bool \<Rightarrow> int \<Rightarrow> btrace_win world
     \<Rightarrow> fault + (msg list \<times> btrace_win world)" where
  "print_backtrace_win ld srcline malloc_ok lst w =
     bindF (get_trace_store_win malloc_ok False w)
       (\<lambda>r. case r of
          (Some bt, w) \<Rightarrow>
            (case deref (heap w) bt of
               None \<Rightarrow> Inl BadPointer
             | Some s \<Rightarrow>
                 let me = current s - lst;
                     me = (if me < 0 then me + SAVE_TRACES else me)
                 in bindF (print_trace_win ld srcline s me) (\<lambda>out. Inr (out, w)))
        | (None, w) \<Rightarrow> Inr ([Sdprintf ''No backtrace store?\<newline>'' []], w))"

partial_function (option) named_loop_win ::
  "bool \<Rightarrow> (addr \<Rightarrow> string option) \<Rightarrow> btrace_win \<Rightarrow> string \<Rightarrow> int \<Rightarrow> (fault + msg list) option" where
  "named_loop_win ld srcline bt label me =
     (let me = (if me < 0 then me + SAVE_TRACES else me)
      in if \<not> (0 \<le> me \<and> me < SAVE_TRACES) then Some (Inl OutOfBounds)
         else if name (dumps bt ! nat me) = Some label then Some (print_trace_win ld srcline bt me)
         else let me = me - 1
              in if me = current bt - 1 then Some (Inr [])
                 else named_loop_win ld srcline bt label me)"

declare named_loop_win.simps [code]

definition bstore_print_backtrace_named_win ::
  "bool \<Rightarrow> (addr \<Rightarrow> string option) \<Rightarrow> btrace_win world \<Rightarrow> nat option \<Rightarrow> string
     \<Rightarrow> (fault + msg list) option" where
  "bstore_print_backtrace_named_win ld srcline w bt label =
     (case bt of
        None \<Rightarrow> Some (Inr [])
      | Some p \<Rightarrow>
          (case deref (heap w) p of
             None \<Rightarrow> Some (Inl BadPointer)
           | Some s \<Rightarrow> named_loop_win ld srcline s label (current s - 1)))"

subsection \<open>Section shared by the three variants\<close>

text \<open>\<open>print_backtrace_named(why)\<close> is
  \<open>bstore_print_backtrace_named(get_trace_store(FALSE), why)\<close>, compiled once for each variant.\<close>

definition print_backtrace_named_glibc ::
  "render_glibc \<Rightarrow> bool \<Rightarrow> string \<Rightarrow> btrace_glibc world
     \<Rightarrow> (fault + msg list) option \<times> btrace_glibc world" where
  "print_backtrace_named_glibc E malloc_ok label w =
     (case get_trace_store_glibc malloc_ok False w of
        (bt, w) \<Rightarrow> (bstore_print_backtrace_named_glibc E w bt label, w))"

definition print_backtrace_named_unw ::
  "bool \<Rightarrow> string \<Rightarrow> btrace_unw world \<Rightarrow> (fault + msg list) option \<times> btrace_unw world" where
  "print_backtrace_named_unw malloc_ok label w =
     (case get_trace_store_unw malloc_ok False w of
        (bt, w) \<Rightarrow> (bstore_print_backtrace_named_unw w bt label, w))"

definition print_backtrace_named_win ::
  "bool \<Rightarrow> (addr \<Rightarrow> string option) \<Rightarrow> bool \<Rightarrow> string \<Rightarrow> btrace_win world
     \<Rightarrow> (fault + msg list) option \<times> btrace_win world" where
  "print_backtrace_named_win ld srcline malloc_ok label w =
     (case get_trace_store_win malloc_ok False w of
        Inl e \<Rightarrow> (Some (Inl e), w)
      | Inr (bt, w) \<Rightarrow> (bstore_print_backtrace_named_win ld srcline w bt label, w))"





text \<open>What the crash handler does besides writing lines, in the order it does it.\<close>

datatype event =
    Signal_DFL int
  | Alarm nat
  | Print msg
  | PL_backtrace int
  | Run_on_halt int
  | Kill int int
  | Abort
  | FatalError string






text \<open>The Windows exception filter \<open>crashHandler\<close>.\<close>

definition crashHandler ::
  "bool \<Rightarrow> bool \<Rightarrow> (addr \<Rightarrow> string option) \<Rightarrow> bool \<Rightarrow> walk_win \<Rightarrow> btrace_win world
     \<Rightarrow> (fault + (event list \<times> btrace_win world)) option" where
  "crashHandler cas ld srcline malloc_ok wk w =
     (case win_save_backtrace cas ld malloc_ok (wk\<lparr>pExceptionInfo := True\<rparr>) ''crash'' w of
        Inl e \<Rightarrow> Some (Inl e)
      | Inr (bt, w) \<Rightarrow>
          (case print_backtrace_named_win ld srcline malloc_ok ''crash'' w of
             (None, w) \<Rightarrow> None
           | (Some (Inl e), w) \<Rightarrow> Some (Inl e)
           | (Some (Inr out), w) \<Rightarrow> Some (Inr (map Print out @ [Abort], w))))"

subsection \<open>Debug predicates\<close>

text \<open>\<open>c_backtrace_clear\<close>, given the variant's \<open>btrace_destroy\<close>.\<close>

definition c_backtrace_clear ::
  "('s world \<Rightarrow> nat \<Rightarrow> fault + 's world) \<Rightarrow> 's world \<Rightarrow> fault + (bool \<times> 's world)" where
  "c_backtrace_clear btrace_destroy w =
     (case LD w of
        None \<Rightarrow> Inl NullDeref
      | Some ld \<Rightarrow>
          (case btrace_store ld of
             Some p \<Rightarrow>
               bindF (btrace_destroy w p)
                 (\<lambda>w. Inr (True, w\<lparr>LD := Some (ld\<lparr>btrace_store := None\<rparr>)\<rparr>))
           | None \<Rightarrow> Inr (True, w)))"

text \<open>\<open>c_backtrace_print\<close>, given the variant's \<open>print_backtrace_named\<close>. The argument is the
  text \<open>PL_get_chars\<close> extracts from the term, \<open>None\<close> when it fails.\<close>

definition c_backtrace_print ::
  "(string \<Rightarrow> 'w \<Rightarrow> (fault + msg list) option \<times> 'w) \<Rightarrow> string option \<Rightarrow> 'w
     \<Rightarrow> (fault + (bool \<times> msg list)) option \<times> 'w" where
  "c_backtrace_print print_backtrace_named A1 w =
     (case A1 of
        Some s \<Rightarrow>
          (case print_backtrace_named s w of
             (None, w) \<Rightarrow> (None, w)
           | (Some (Inl e), w) \<Rightarrow> (Some (Inl e), w)
           | (Some (Inr out), w) \<Rightarrow> (Some (Inr (True, out)), w))
      | None \<Rightarrow> (Some (Inr (False, [])), w))"

subsection \<open>Fallback: no stack walker\<close>

definition save_backtrace_fallback :: "string \<Rightarrow> nat option" where
  "save_backtrace_fallback label = None"

text \<open>\<open>__FILE__\<close> is an argument; \<open>__LINE__\<close> is the line of the source the macro stands on.\<close>

definition print_backtrace_fallback :: "string \<Rightarrow> int \<Rightarrow> msg list" where
  "print_backtrace_fallback file lst =
     [Sdprintf ''%s:%d C-stack dumps are not supported on this platform\<newline>'' [S file, I 1039]]"

definition print_backtrace_named_fallback :: "string \<Rightarrow> string \<Rightarrow> msg list" where
  "print_backtrace_named_fallback file label =
     [Sdprintf ''%s:%d C-stack dumps are not supported on this platform\<newline>'' [S file, I 1045]]"

definition print_c_backtrace_fallback :: "string \<Rightarrow> msg list" where
  "print_c_backtrace_fallback label = []"


subsection \<open>Interleaved callers of \<open>next_btrace_id\<close>\<close>

text \<open>Callers of the compare-and-swap path of \<open>next_btrace_id\<close> that run interleaved on one
  store (a signal handler can interrupt another caller at any instruction). Each caller is
  at the start of the loop body, or has read \<open>bt->current\<close> into its local \<open>current\<close>, or has
  returned \<open>current\<close>. One step of a caller is one access to the shared cell: the read, or the
  \<open>COMPARE_AND_SWAP\<close>, after which the caller returns or goes round the loop.\<close>

datatype caller = Start | Loaded int | Done int

fun returned :: "caller \<Rightarrow> bool" where
  "returned (Done i) = True"
| "returned c = False"

definition cas_step :: "nat \<Rightarrow> int \<times> caller list \<Rightarrow> int \<times> caller list" where
  "cas_step t st =
     (let mem = fst st; cs = snd st in
      if t < length cs then
        (case cs ! t of
           Start \<Rightarrow> (mem, cs[t := Loaded mem])
         | Loaded cur \<Rightarrow>
             let next = cur + 1;
                 next = (if next = SAVE_TRACES then 0 else next)
             in if \<not> fst (COMPARE_AND_SWAP mem cur next)
                then (snd (COMPARE_AND_SWAP mem cur next), cs[t := Start])
                else (snd (COMPARE_AND_SWAP mem cur next), cs[t := Done cur])
         | Done i \<Rightarrow> (mem, cs))
      else (mem, cs))"

text \<open>A schedule names the caller that takes each successive step.\<close>

definition run_schedule :: "nat list \<Rightarrow> int \<times> caller list \<Rightarrow> int \<times> caller list" where
  "run_schedule sched st = foldl (\<lambda>s t. cas_step t s) st sched"

section \<open>Invariants, scenarios and specification-level definitions\<close>

text \<open>The definitions of this section are not translations of source functions. They state
  the invariants of the stores, name the runs the properties are about, and spell out what
  the specification says a lookup and a crash report are.\<close>

subsection \<open>Well-formed stores and contexts\<close>

text \<open>Representation invariant of a glibc store: the cursor is an index of the ring and the
  three arrays have their declared length.\<close>

definition wf_glibc :: "btrace_glibc \<Rightarrow> bool" where
  "wf_glibc s \<longleftrightarrow>
     0 \<le> current s \<and> current s < SAVE_TRACES \<and>
     length (retaddr s) = SAVE_TRACES \<and> length (why s) = SAVE_TRACES \<and>
     length (sizes s) = SAVE_TRACES"

text \<open>The same for a store of the libunwind or of the Windows variant: ten slots, each with an
  array of \<open>MAX_DEPTH\<close> frames and a depth within it.\<close>

definition wf_dumps :: "'f btrace_dumps \<Rightarrow> bool" where
  "wf_dumps s \<longleftrightarrow>
     0 \<le> current s \<and> current s < SAVE_TRACES \<and> length (dumps s) = SAVE_TRACES \<and>
     list_all (\<lambda>d. length (frame d) = MAX_DEPTH \<and> depth d \<le> MAX_DEPTH) (dumps s)"

text \<open>The store of the calling execution context, if it has one.\<close>

definition store_of :: "'s world \<Rightarrow> 's option" where
  "store_of w =
     (case LD w of
        None \<Rightarrow> None
      | Some ld \<Rightarrow> (case btrace_store ld of None \<Rightarrow> None | Some p \<Rightarrow> deref (heap w) p))"

text \<open>An execution context: \<open>LD\<close> exists, and its store, if it has one, is allocated and well
  formed.\<close>

definition context_glibc :: "btrace_glibc world \<Rightarrow> bool" where
  "context_glibc w =
     (case LD w of
        None \<Rightarrow> False
      | Some ld \<Rightarrow>
          (case btrace_store ld of
             None \<Rightarrow> True
           | Some p \<Rightarrow> (case deref (heap w) p of None \<Rightarrow> False | Some s \<Rightarrow> wf_glibc s)))"

definition context_dumps :: "'f btrace_dumps world \<Rightarrow> bool" where
  "context_dumps w =
     (case LD w of
        None \<Rightarrow> False
      | Some ld \<Rightarrow>
          (case btrace_store ld of
             None \<Rightarrow> True
           | Some p \<Rightarrow> (case deref (heap w) p of None \<Rightarrow> False | Some s \<Rightarrow> wf_dumps s)))"

text \<open>No store: there is no \<open>LD\<close>, or its \<open>btrace_store\<close> is \<open>NULL\<close>.\<close>

definition no_store :: "'s world \<Rightarrow> bool" where
  "no_store w = (case LD w of None \<Rightarrow> True | Some ld \<Rightarrow> btrace_store ld = None)"

subsection \<open>Sequences of captures (glibc variant)\<close>

text \<open>A sequence of capture calls, each with its label and with what it meets.\<close>

fun captures_glibc ::
  "bool \<Rightarrow> (capture_glibc \<times> string) list \<Rightarrow> btrace_glibc world \<Rightarrow> fault + btrace_glibc world" where
  "captures_glibc cas [] w = Inr w"
| "captures_glibc cas (x # xs) w =
     (case save_backtrace_glibc cas (fst x) (snd x) w of
        Inl e \<Rightarrow> Inl e
      | Inr r \<Rightarrow> captures_glibc cas xs (snd r))"

text \<open>All allocations of the calls succeed.\<close>

definition allocs_ok :: "(capture_glibc \<times> string) list \<Rightarrow> bool" where
  "allocs_ok cs = list_all (\<lambda>x. malloc_store (fst x) \<and> malloc_frames (fst x)) cs"

text \<open>The content of slot \<open>k\<close> of a store, and the content a capture call gives to the slot it
  fills: its label, the number of frames and the copied return addresses.\<close>

definition slot_glibc :: "btrace_glibc \<Rightarrow> nat \<Rightarrow> string option \<times> nat \<times> addr list option" where
  "slot_glibc s k = (why s ! k, sizes s ! k, retaddr s ! k)"

definition entry_glibc :: "capture_glibc \<times> string \<Rightarrow> string option \<times> nat \<times> addr list option" where
  "entry_glibc x =
     (Some (snd x), length (backtrace (stack (fst x)) 100),
      if malloc_frames (fst x) then Some (backtrace (stack (fst x)) 100) else None)"

text \<open>The effect of one capture call on a well-formed store (shown below to be what
  \<open>save_backtrace\<close> does), and the same for a store of the other two variants, given the
  slot content.\<close>

definition put_glibc :: "capture_glibc \<times> string \<Rightarrow> btrace_glibc \<Rightarrow> btrace_glibc" where
  "put_glibc x s =
     s\<lparr>current := (current s + 1) mod SAVE_TRACES,
       sizes := (sizes s)[nat (current s) := fst (snd (entry_glibc x))],
       retaddr := (retaddr s)[nat (current s) := snd (snd (entry_glibc x))],
       why := (why s)[nat (current s) := fst (entry_glibc x)]\<rparr>"

definition put_dumps :: "'f btrace_stack \<Rightarrow> 'f btrace_dumps \<Rightarrow> 'f btrace_dumps" where
  "put_dumps d s =
     s\<lparr>current := (current s + 1) mod SAVE_TRACES, dumps := (dumps s)[nat (current s) := d]\<rparr>"

text \<open>The lines \<open>print_trace\<close> writes for a trace with the given label and return addresses.\<close>

definition trace_lines_glibc :: "render_glibc \<Rightarrow> string \<Rightarrow> addr list \<Rightarrow> msg list" where
  "trace_lines_glibc E l a =
     Sdprintf ''C-stack trace labeled \"%s\":\<newline>'' [S l]
       # concat (map (\<lambda>i. frame_line_glibc E i (a ! i)) [0..<length a])"

text \<open>What \<open>print_backtrace(i)\<close> writes after a sequence of captures, and what
  \<open>print_backtrace_named(label)\<close> writes after one.\<close>

definition most_recent_glibc ::
  "render_glibc \<Rightarrow> bool \<Rightarrow> bool \<Rightarrow> (capture_glibc \<times> string) list \<Rightarrow> btrace_glibc world \<Rightarrow> int
     \<Rightarrow> fault + msg list" where
  "most_recent_glibc E cas mo cs w i =
     (case captures_glibc cas cs w of
        Inl e \<Rightarrow> Inl e
      | Inr w' \<Rightarrow> fst (print_backtrace_glibc E mo i w'))"

definition named_after_glibc ::
  "render_glibc \<Rightarrow> bool \<Rightarrow> bool \<Rightarrow> (capture_glibc \<times> string) list \<Rightarrow> btrace_glibc world \<Rightarrow> string
     \<Rightarrow> (fault + msg list) option" where
  "named_after_glibc E cas mo cs w label =
     (case captures_glibc cas cs w of
        Inl e \<Rightarrow> Some (Inl e)
      | Inr w' \<Rightarrow> fst (print_backtrace_named_glibc E mo label w'))"

text \<open>The slots of a glibc store that hold a label.\<close>

definition labels_glibc :: "btrace_glibc \<Rightarrow> nat list" where
  "labels_glibc s = filter (\<lambda>k. why s ! k \<noteq> None) [0..<SAVE_TRACES]"

text \<open>The number of frames a capture call leaves in the slot it fills, read from the store the
  call returns: the slot before the cursor.\<close>

definition stored_depth_unw ::
  "bool \<Rightarrow> bool \<Rightarrow> (string \<times> addr) option list \<Rightarrow> string \<Rightarrow> btrace_unw world \<Rightarrow> nat option" where
  "stored_depth_unw cas malloc_ok steps label w =
     (case save_backtrace_unw cas malloc_ok steps label w of
        Inr (Some p, w') \<Rightarrow>
          (case deref (heap w') p of
             Some s \<Rightarrow> Some (depth (dumps s ! nat ((current s - 1) mod SAVE_TRACES)))
           | None \<Rightarrow> None)
      | _ \<Rightarrow> None)"

definition stored_depth_win ::
  "bool \<Rightarrow> bool \<Rightarrow> bool \<Rightarrow> walk_win \<Rightarrow> string \<Rightarrow> btrace_win world \<Rightarrow> nat option" where
  "stored_depth_win cas ld malloc_ok wk label w =
     (case save_backtrace_win cas ld malloc_ok wk label w of
        Inr (Some p, w') \<Rightarrow>
          (case deref (heap w') p of
             Some s \<Rightarrow> Some (depth (dumps s ! nat ((current s - 1) mod SAVE_TRACES)))
           | None \<Rightarrow> None)
      | _ \<Rightarrow> None)"

definition stored_size_glibc ::
  "bool \<Rightarrow> capture_glibc \<Rightarrow> string \<Rightarrow> btrace_glibc world \<Rightarrow> nat option" where
  "stored_size_glibc cas c label w =
     (case save_backtrace_glibc cas c label w of
        Inr (Some p, w') \<Rightarrow>
          (case deref (heap w') p of
             Some s \<Rightarrow> Some (sizes s ! nat ((current s - 1) mod SAVE_TRACES))
           | None \<Rightarrow> None)
      | _ \<Rightarrow> None)"

subsection \<open>The specification of the lookup by label and of the crash report\<close>

text \<open>Following the specification: a lookup by label scans backward from the most recent slot,
  wrapping once, and stops at the first slot whose label matches. \<open>scan_order c\<close> is that
  order for the cursor \<open>c\<close>: the slot before the cursor first, then backwards through the
  ring.\<close>

definition scan_order :: "int \<Rightarrow> nat list" where
  "scan_order c = map (\<lambda>k. nat ((c - 1 - int k) mod SAVE_TRACES)) [0..<SAVE_TRACES]"

definition first_match_glibc :: "btrace_glibc \<Rightarrow> string \<Rightarrow> nat option" where
  "first_match_glibc bt label = find (\<lambda>me. why bt ! me = Some label) (scan_order (current bt))"

definition first_match_dumps :: "'f btrace_dumps \<Rightarrow> string \<Rightarrow> nat option" where
  "first_match_dumps bt label =
     find (\<lambda>me. name (dumps bt ! me) = Some label) (scan_order (current bt))"







subsection \<open>Invariant of the interleaved reservations\<close>

text \<open>The number of callers that have returned, and the invariant of a run: the cursor is an
  index of the ring, every index returned is one of the slots just behind the cursor, as
  many as callers have returned, and no two callers hold the same index.\<close>

definition ndone :: "caller list \<Rightarrow> nat" where
  "ndone cs = length (filter returned cs)"

definition cas_inv :: "int \<times> caller list \<Rightarrow> bool" where
  "cas_inv st \<longleftrightarrow>
     0 \<le> fst st \<and> fst st < SAVE_TRACES \<and>
     (\<forall>t i. t < length (snd st) \<and> snd st ! t = Done i \<longrightarrow>
        (\<exists>k. 1 \<le> k \<and> k \<le> ndone (snd st) \<and> i = (fst st - int k) mod SAVE_TRACES)) \<and>
     (\<forall>t1 t2 i. t1 < length (snd st) \<and> t2 < length (snd st) \<and> t1 \<noteq> t2
        \<and> snd st ! t1 = Done i \<longrightarrow> snd st ! t2 \<noteq> Done i)"

subsection \<open>Concrete inputs\<close>

text \<open>A context that has not captured yet; a context whose store is the given one; a context
  that has captured once.\<close>

definition fresh_world :: "'s world" where
  "fresh_world = \<lparr>heap = [], LD = Some \<lparr>btrace_store = None\<rparr>\<rparr>"

definition empty_world :: "'a \<Rightarrow> 'a world" where
  "empty_world zeroed = \<lparr>heap = [Some zeroed], LD = Some \<lparr>btrace_store = Some 0\<rparr>\<rparr>"

definition capture_ok :: "addr list \<Rightarrow> capture_glibc" where
  "capture_ok stk = \<lparr>stack = stk, malloc_store = True, malloc_frames = True\<rparr>"

definition used_world :: "btrace_glibc world" where
  "used_world =
     \<lparr>heap = [Some (put_glibc (capture_ok [7], ''old'') (zeroed_glibc\<lparr>shared := True\<rparr>))],
      LD = Some \<lparr>btrace_store = Some 0\<rparr>\<rparr>"

text \<open>A \<open>dladdr\<close> that knows no file name for any address, so that every frame is written as
  \<open>???\<close>.\<close>

definition render_unknown :: render_glibc where
  "render_unknown =
     \<lparr>dladdr = (\<lambda>a. Some \<lparr>dli_fname = None, dli_fbase = 0, dli_sname = None, dli_saddr = 0\<rparr>),
      addr2line = (\<lambda>f a. None), APPLE = False\<rparr>"

definition three_captures :: "(capture_glibc \<times> string) list" where
  "three_captures =
     [(capture_ok [1, 2], ''gc''), (capture_ok [3], ''gc''), (capture_ok [4, 5], ''crash'')]"

definition labelled :: "string list \<Rightarrow> (capture_glibc \<times> string) list" where
  "labelled ls = map (\<lambda>l. (capture_ok [], l)) ls"

definition L0_to_LK :: "string list" where
  "L0_to_LK = [''L0'', ''L1'', ''L2'', ''L3'', ''L4'', ''L5'', ''L6'', ''L7'', ''L8'', ''L9'', ''L10'']"

definition eleven_frames :: "addr list" where
  "eleven_frames = [1, 2, 3, 4, 5, 6, 7, 8, 9, 10, 11]"





section \<open>Properties\<close>

subsection \<open>Slot reservation\<close>

lemma next_btrace_id_cas_in_range:
  "0 \<le> c \<Longrightarrow> c < SAVE_TRACES \<Longrightarrow> next_btrace_id_cas c = (c, (c + 1) mod SAVE_TRACES)"
  by (simp add: COMPARE_AND_SWAP_def Let_def mod_pos_pos_trivial)

lemma next_btrace_id_plain_in_range:
  "0 \<le> c \<Longrightarrow> c < SAVE_TRACES \<Longrightarrow> next_btrace_id_plain c = (c, (c + 1) mod SAVE_TRACES)"
  by (auto simp: next_btrace_id_plain_def Let_def smod_mod_positive mod_pos_pos_trivial)

lemma next_btrace_id_in_range:
  "0 \<le> current bt \<Longrightarrow> current bt < SAVE_TRACES \<Longrightarrow>
   next_btrace_id cas bt = (current bt, bt\<lparr>current := (current bt + 1) mod SAVE_TRACES\<rparr>)"
  by (simp add: next_btrace_id_def next_btrace_id_cas_in_range next_btrace_id_plain_in_range
        del: next_btrace_id_cas.simps)

text \<open>
  Claim C9. Run without interleaving from a cursor in \<open>[0, SAVE_TRACES - 1]\<close>, both the
  compare-and-swap path and the plain path of \<open>next_btrace_id\<close> return the cursor as the
  reserved index and leave the cursor at its successor modulo \<open>SAVE_TRACES\<close>, which is
  again in \<open>[0, SAVE_TRACES - 1]\<close>; no other field of the store changes.
\<close>

theorem next_btrace_id_sequential:
  assumes "0 \<le> current bt" and "current bt < SAVE_TRACES"
  shows "(\<forall>cas. fst (next_btrace_id cas bt) = current bt
           \<and> snd (next_btrace_id cas bt) = bt\<lparr>current := (current bt + 1) mod SAVE_TRACES\<rparr>
           \<and> 0 \<le> current (snd (next_btrace_id cas bt))
           \<and> current (snd (next_btrace_id cas bt)) < SAVE_TRACES)
         \<and> next_btrace_id_cas (current bt) = (current bt, (current bt + 1) mod SAVE_TRACES)
         \<and> next_btrace_id_plain (current bt) = (current bt, (current bt + 1) mod SAVE_TRACES)"
  using assms
  by (simp add: next_btrace_id_in_range next_btrace_id_cas_in_range
        next_btrace_id_plain_in_range del: next_btrace_id_cas.simps)

theorem next_btrace_id_sequential_witness:
  "0 \<le> current (zeroed_glibc\<lparr>current := 9\<rparr>) \<and> current (zeroed_glibc\<lparr>current := 9\<rparr>) < SAVE_TRACES
   \<and> next_btrace_id True (zeroed_glibc\<lparr>current := 9\<rparr>) = (9, zeroed_glibc\<lparr>current := 0\<rparr>)
   \<and> next_btrace_id False (zeroed_glibc\<lparr>current := 9\<rparr>) = (9, zeroed_glibc\<lparr>current := 0\<rparr>)"
  using next_btrace_id_sequential [of "zeroed_glibc\<lparr>current := 9\<rparr>"]
  by (simp add: prod_eq_iff)

subsection \<open>The ring of the glibc store\<close>

lemma bindF_simps [simp]:
  "bindF (Inl e) f = Inl e" "bindF (Inr x) f = f x"
  by (simp_all add: bindF_def)

lemma store_of_SomeD:
  "store_of w = Some s \<Longrightarrow>
   \<exists>ld p. LD w = Some ld \<and> btrace_store ld = Some p \<and> deref (heap w) p = Some s"
  by (auto simp: store_of_def split: option.splits)

lemma deref_update: "deref h p = Some s \<Longrightarrow> deref (h[p := Some s']) p = Some s'"
  by (auto simp: deref_def split: if_splits)

lemma wf_zeroed_glibc: "wf_glibc (zeroed_glibc\<lparr>shared := b\<rparr>)"
  by (simp add: wf_glibc_def zeroed_glibc_def)

lemma wf_put_glibc: "wf_glibc s \<Longrightarrow> wf_glibc (put_glibc x s)"
  by (simp add: wf_glibc_def put_glibc_def)

lemma save_backtrace_glibc_existing:
  assumes "store_of w = Some s" and "wf_glibc s"
  shows "\<exists>p w'. save_backtrace_glibc cas c l w = Inr (Some p, w')
           \<and> store_of w' = Some (put_glibc (c, l) s)"
proof -
  from assms(1) obtain ld p where
    w: "LD w = Some ld" "btrace_store ld = Some p" "deref (heap w) p = Some s"
    by (blast dest: store_of_SomeD)
  from assms(2) have c: "0 \<le> current s" "current s < 10"
    by (simp_all add: wf_glibc_def)
  have "save_backtrace_glibc cas c l w =
          Inr (Some p, w\<lparr>heap := (heap w)[p := Some (put_glibc (c, l) s)]\<rparr>)"
    using w c
    by (simp add: save_backtrace_glibc_def get_trace_store_glibc_def
          next_btrace_id_in_range put_glibc_def entry_glibc_def Let_def)
  moreover have "store_of (w\<lparr>heap := (heap w)[p := Some (put_glibc (c, l) s)]\<rparr>)
                   = Some (put_glibc (c, l) s)"
    using w by (simp add: store_of_def deref_update)
  ultimately show ?thesis by blast
qed

lemma save_backtrace_glibc_fresh:
  assumes "LD w = Some ld" and "btrace_store ld = None" and "malloc_store c"
  shows "\<exists>p w'. save_backtrace_glibc cas c l w = Inr (Some p, w')
           \<and> store_of w' = Some (put_glibc (c, l) (zeroed_glibc\<lparr>shared := True\<rparr>))"
  using assms
  by (simp add: save_backtrace_glibc_def get_trace_store_glibc_def malloc_def deref_def
        next_btrace_id_in_range put_glibc_def entry_glibc_def Let_def store_of_def
        zeroed_glibc_def)


lemma slot_put_glibc_same:
  "wf_glibc s \<Longrightarrow> slot_glibc (put_glibc x s) (nat (current s)) = entry_glibc x"
proof -
  assume "wf_glibc s"
  then have "nat (current s) < length (why s)" "nat (current s) < length (sizes s)"
    "nat (current s) < length (retaddr s)"
    by (auto simp: wf_glibc_def)
  then show ?thesis
    by (simp add: put_glibc_def slot_glibc_def)
qed

lemma slot_put_glibc_other:
  "k \<noteq> nat (current s) \<Longrightarrow> slot_glibc (put_glibc x s) k = slot_glibc s k"
  by (simp add: put_glibc_def slot_glibc_def)

lemma mod10_neg: "- 10 \<le> y \<Longrightarrow> y < 0 \<Longrightarrow> y mod 10 = y + (10::int)"
  using mod_add_self2 [of y 10] by (simp add: mod_pos_pos_trivial del: mod_add_self2)

lemma mod10_pos: "0 \<le> y \<Longrightarrow> y < 10 \<Longrightarrow> y mod 10 = (y::int)"
  by (simp add: mod_pos_pos_trivial)

lemma mod10_cases:
  "- 10 \<le> y \<Longrightarrow> y < 10 \<Longrightarrow> y mod 10 = (if y < 0 then y + 10 else (y::int))"
  by (simp add: mod10_neg mod10_pos)

lemma ring_succ:
  "0 \<le> c \<Longrightarrow> c < 10 \<Longrightarrow> (c + 1) mod 10 = (if c = 9 then 0 else c + (1::int))"
  by (simp add: mod10_pos)

lemma ring_prev: "0 \<le> c \<Longrightarrow> c < 10 \<Longrightarrow> ((c + 1) mod 10 - 1) mod 10 = (c::int)"
  by (simp add: ring_succ mod10_cases)

lemma ring_back:
  "0 \<le> c \<Longrightarrow> c < 10 \<Longrightarrow> 2 \<le> j \<Longrightarrow> j \<le> 10 \<Longrightarrow>
   ((c + 1) mod 10 - j) mod 10 = (c - (j - 1)) mod 10 \<and> (c - (j - 1)) mod 10 \<noteq> (c::int)"
  by (simp add: ring_succ mod10_cases)

lemma ring_adj:
  "0 \<le> c \<Longrightarrow> c < 10 \<Longrightarrow> 1 \<le> j \<Longrightarrow> j \<le> 10 \<Longrightarrow>
   (if c - j < 0 then c - j + 10 else c - j) = (c - j) mod (10::int)"
  by (simp add: mod10_cases)

lemma ring_glibc:
  assumes "wf_glibc s"
  shows "wf_glibc (fold put_glibc cs s)
         \<and> current (fold put_glibc cs s) = (current s + int (length cs)) mod SAVE_TRACES
         \<and> (\<forall>i. 1 \<le> i \<and> i \<le> length cs \<and> i \<le> SAVE_TRACES \<longrightarrow>
               slot_glibc (fold put_glibc cs s)
                 (nat ((current (fold put_glibc cs s) - int i) mod SAVE_TRACES))
               = entry_glibc (cs ! (length cs - i)))"
proof (induction cs rule: rev_induct)
  case Nil
  from assms show ?case by (simp add: wf_glibc_def)
next
  case (snoc x xs)
  let ?t = "fold put_glibc xs s"
  from snoc.IH have wf: "wf_glibc ?t"
    and cur: "current ?t = (current s + int (length xs)) mod 10"
    by blast+
  from snoc.IH have old: "1 \<le> i \<Longrightarrow> i \<le> length xs \<Longrightarrow> i \<le> 10 \<Longrightarrow>
      slot_glibc ?t (nat ((current ?t - int i) mod 10)) = entry_glibc (xs ! (length xs - i))" for i
    by blast
  from wf have c: "0 \<le> current ?t" "current ?t < 10" by (simp_all add: wf_glibc_def)
  have new: "current (put_glibc x ?t) = (current ?t + 1) mod 10"
    by (simp add: put_glibc_def)
  have 1: "wf_glibc (fold put_glibc (xs @ [x]) s)"
    using wf by (simp add: wf_put_glibc)
  have 2: "current (fold put_glibc (xs @ [x]) s) = (current s + int (length (xs @ [x]))) mod 10"
    using cur by (simp add: new mod_simps algebra_simps)
  have 3: "slot_glibc (fold put_glibc (xs @ [x]) s)
             (nat ((current (fold put_glibc (xs @ [x]) s) - int i) mod 10))
           = entry_glibc ((xs @ [x]) ! (length (xs @ [x]) - i))"
    if i: "1 \<le> i" "i \<le> length (xs @ [x])" "i \<le> 10" for i
  proof (cases "i = 1")
    case True
    then show ?thesis
      using wf c by (simp add: new ring_prev slot_put_glibc_same)
  next
    case False
    with i have i2: "2 \<le> i" by simp
    from i2 i(3) have j: "2 \<le> int i" "int i \<le> 10" by simp_all
    from ring_back [OF c j] i2
    have eq: "((current ?t + 1) mod 10 - int i) mod 10 = (current ?t - int (i - 1)) mod 10"
      and ne: "(current ?t - int (i - 1)) mod 10 \<noteq> current ?t"
      by (simp_all add: of_nat_diff)
    have ne': "nat ((current ?t - int (i - 1)) mod 10) \<noteq> nat (current ?t)"
      using ne c by (simp add: nat_eq_iff)
    define k where "k = length xs - (i - 1)"
    have k: "Suc (length xs) - i = k" "k < length xs"
      using i i2 by (auto simp: k_def)
    have idx: "(xs @ [x]) ! (length (xs @ [x]) - i) = xs ! (length xs - (i - 1))"
      unfolding k_def [symmetric] using k by (simp add: nth_append)
    have a: "slot_glibc ?t (nat ((current ?t - int (i - 1)) mod 10))
               = entry_glibc (xs ! (length xs - (i - 1)))"
      by (rule old) (use i i2 in auto)
    have b: "fold put_glibc (xs @ [x]) s = put_glibc x ?t"
      by simp
    show ?thesis
      by (simp only: b new eq idx slot_put_glibc_other [OF ne'] a)
  qed
  from 1 2 3 show ?case by blast
qed

lemma captures_glibc_existing:
  assumes "store_of w = Some s" and "wf_glibc s"
  shows "\<exists>w'. captures_glibc cas cs w = Inr w' \<and> store_of w' = Some (fold put_glibc cs s)"
  using assms
proof (induction cs arbitrary: w s)
  case Nil
  then show ?case by simp
next
  case (Cons x xs)
  from save_backtrace_glibc_existing [OF Cons.prems, of cas "fst x" "snd x"]
  obtain p w1 where s: "save_backtrace_glibc cas (fst x) (snd x) w = Inr (Some p, w1)"
    and st: "store_of w1 = Some (put_glibc x s)"
    by auto
  from Cons.IH [OF st wf_put_glibc [OF Cons.prems(2)]] s
  show ?case by simp
qed

lemma captures_glibc_fresh:
  assumes "LD w = Some ld" and "btrace_store ld = None" and "cs \<noteq> []"
    and "malloc_store (fst (hd cs))"
  shows "\<exists>w'. captures_glibc cas cs w = Inr w'
           \<and> store_of w' = Some (fold put_glibc cs (zeroed_glibc\<lparr>shared := True\<rparr>))"
proof (cases cs)
  case Nil
  with assms show ?thesis by simp
next
  case (Cons x xs)
  with assms have "malloc_store (fst x)" by simp
  from save_backtrace_glibc_fresh [OF assms(1,2) this, of cas "snd x"]
  obtain p w1 where s: "save_backtrace_glibc cas (fst x) (snd x) w = Inr (Some p, w1)"
    and st: "store_of w1 = Some (put_glibc x (zeroed_glibc\<lparr>shared := True\<rparr>))"
    by auto
  from captures_glibc_existing [OF st wf_put_glibc [OF wf_zeroed_glibc], of cas xs] s Cons
  show ?thesis by simp
qed

lemma print_backtrace_glibc_store:
  assumes "store_of w = Some s" and "wf_glibc s" and "1 \<le> i" and "i \<le> SAVE_TRACES"
  shows "print_backtrace_glibc E mo (int i) w
         = (print_trace_glibc E s ((current s - int i) mod SAVE_TRACES), w)"
proof -
  from assms(1) obtain ld p where
    w: "LD w = Some ld" "btrace_store ld = Some p" "deref (heap w) p = Some s"
    by (blast dest: store_of_SomeD)
  from assms(2) have c: "0 \<le> current s" "current s < 10"
    by (simp_all add: wf_glibc_def)
  have "(if current s - int i < 0 then current s - int i + 10 else current s - int i)
          = (current s - int i) mod 10"
    using c assms(3,4) by (intro ring_adj) simp_all
  then show ?thesis
    using w by (simp add: print_backtrace_glibc_def get_trace_store_glibc_def Let_def)
qed

lemma print_trace_glibc_slot:
  assumes "0 \<le> me" and "me < SAVE_TRACES"
    and "slot_glibc s (nat me) = (Some l, length a, Some a)"
  shows "print_trace_glibc E s me = Inr (trace_lines_glibc E l a)"
  using assms
  by (simp add: print_trace_glibc_def slot_glibc_def print_frames_glibc_def
        trace_lines_glibc_def)

lemma captures_glibc_context:
  assumes "context_glibc w" and "cs \<noteq> []" and "malloc_store (fst (hd cs))"
  shows "\<exists>w' s0. wf_glibc s0 \<and> captures_glibc cas cs w = Inr w'
           \<and> store_of w' = Some (fold put_glibc cs s0)
           \<and> (store_of w = None \<longrightarrow> s0 = zeroed_glibc\<lparr>shared := True\<rparr>)
           \<and> (\<forall>s. store_of w = Some s \<longrightarrow> s0 = s)"
proof -
  from assms(1) obtain ld where ld: "LD w = Some ld"
    by (auto simp: context_glibc_def split: option.splits)
  show ?thesis
  proof (cases "btrace_store ld")
    case None
    with ld have "store_of w = None" by (simp add: store_of_def)
    with captures_glibc_fresh [OF ld None assms(2,3), of cas] wf_zeroed_glibc [of True]
    show ?thesis by auto
  next
    case (Some p)
    with ld assms(1) obtain s where s: "deref (heap w) p = Some s" "wf_glibc s"
      by (auto simp: context_glibc_def split: option.splits)
    with ld Some have st: "store_of w = Some s" by (simp add: store_of_def)
    from captures_glibc_existing [OF st s(2), of cas cs] st s(2)
    show ?thesis by auto
  qed
qed

lemma recent_glibc:
  assumes ctx: "context_glibc w" and ok: "allocs_ok cs" and ne: "cs \<noteq> []"
  shows "\<exists>w' s. captures_glibc cas cs w = Inr w' \<and> store_of w' = Some s \<and> wf_glibc s
           \<and> (\<forall>i. 1 \<le> i \<and> i \<le> length cs \<and> i \<le> SAVE_TRACES \<longrightarrow>
                 slot_glibc s (nat ((current s - int i) mod SAVE_TRACES))
                   = entry_glibc (cs ! (length cs - i))
                 \<and> print_backtrace_glibc E mo (int i) w'
                     = (Inr (trace_lines_glibc E (snd (cs ! (length cs - i)))
                              (backtrace (stack (fst (cs ! (length cs - i)))) 100)), w'))"
proof -
  from ok ne have "malloc_store (fst (hd cs))"
    by (cases cs) (simp_all add: allocs_ok_def)
  from captures_glibc_context [OF ctx ne this, of cas]
  obtain w' s0 where s0: "wf_glibc s0" and run: "captures_glibc cas cs w = Inr w'"
    and st: "store_of w' = Some (fold put_glibc cs s0)"
    by blast
  let ?s = "fold put_glibc cs s0"
  from ring_glibc [OF s0, of cs] have wf: "wf_glibc ?s"
    by blast
  have "slot_glibc ?s (nat ((current ?s - int i) mod 10)) = entry_glibc (cs ! (length cs - i))
        \<and> print_backtrace_glibc E mo (int i) w'
            = (Inr (trace_lines_glibc E (snd (cs ! (length cs - i)))
                     (backtrace (stack (fst (cs ! (length cs - i)))) 100)), w')"
    if i: "1 \<le> i" "i \<le> length cs" "i \<le> 10" for i
  proof -
    let ?x = "cs ! (length cs - i)"
    from ring_glibc [OF s0, of cs] i
    have slot: "slot_glibc ?s (nat ((current ?s - int i) mod 10)) = entry_glibc ?x"
      by blast
    from i have "?x \<in> set cs" by simp
    with ok have "malloc_frames (fst ?x)"
      by (simp add: allocs_ok_def list_all_iff)
    with slot have slot':
      "slot_glibc ?s (nat ((current ?s - int i) mod 10))
         = (Some (snd ?x), length (backtrace (stack (fst ?x)) 100),
            Some (backtrace (stack (fst ?x)) 100))"
      by (simp add: entry_glibc_def)
    have "print_trace_glibc E ?s ((current ?s - int i) mod 10)
            = Inr (trace_lines_glibc E (snd ?x) (backtrace (stack (fst ?x)) 100))"
      by (rule print_trace_glibc_slot [OF _ _ slot']) simp_all
    with print_backtrace_glibc_store [OF st wf i(1,3), of E mo] slot
    show ?thesis by simp
  qed
  with run st wf show ?thesis by blast
qed

subsection \<open>Most recent traces (glibc variant)\<close>

text \<open>
  Claim C1. On an execution context whose store, if it has one, is well formed, let at most
  \<open>SAVE_TRACES\<close> capture calls run, their allocations succeeding. For every offset \<open>i\<close> from
  1 to the number of calls, \<open>print_backtrace(i)\<close> reads the slot at cursor minus \<open>i\<close> modulo
  \<open>SAVE_TRACES\<close>; that slot holds what the \<open>i\<close>-th most recent call recorded, and the lines
  written are the header with that call's label followed by the lines of its frames.
\<close>

theorem print_backtrace_recent:
  assumes "context_glibc w" and "allocs_ok cs"
    and "length cs \<le> SAVE_TRACES" and "1 \<le> i" and "i \<le> length cs"
  shows "\<exists>w' s. captures_glibc cas cs w = Inr w' \<and> store_of w' = Some s
           \<and> slot_glibc s (nat ((current s - int i) mod SAVE_TRACES))
               = entry_glibc (cs ! (length cs - i))
           \<and> print_backtrace_glibc E mo (int i) w'
               = (print_trace_glibc E s ((current s - int i) mod SAVE_TRACES), w')
           \<and> most_recent_glibc E cas mo cs w (int i)
               = Inr (trace_lines_glibc E (snd (cs ! (length cs - i)))
                       (backtrace (stack (fst (cs ! (length cs - i)))) 100))"
proof -
  from assms have ne: "cs \<noteq> []" and i10: "i \<le> 10" by auto
  from recent_glibc [OF assms(1,2) ne, of cas E mo]
  obtain w' s where run: "captures_glibc cas cs w = Inr w'" and st: "store_of w' = Some s"
    and wf: "wf_glibc s"
    and all: "\<And>i. 1 \<le> i \<Longrightarrow> i \<le> length cs \<Longrightarrow> i \<le> 10 \<Longrightarrow>
        slot_glibc s (nat ((current s - int i) mod 10)) = entry_glibc (cs ! (length cs - i))
        \<and> print_backtrace_glibc E mo (int i) w'
            = (Inr (trace_lines_glibc E (snd (cs ! (length cs - i)))
                     (backtrace (stack (fst (cs ! (length cs - i)))) 100)), w')"
    by blast
  from all [OF assms(4,5) i10] print_backtrace_glibc_store [OF st wf assms(4) i10, of E mo] run st
  show ?thesis
    by (auto simp: most_recent_glibc_def)
qed

theorem print_backtrace_recent_witness:
  "context_glibc fresh_world \<and> allocs_ok three_captures
   \<and> length three_captures \<le> SAVE_TRACES \<and> (1::nat) \<le> 2 \<and> 2 \<le> length three_captures
   \<and> most_recent_glibc render_unknown False True three_captures fresh_world 2
       = Inr [Sdprintf ''C-stack trace labeled \"%s\":\<newline>'' [S ''gc''],
              Sdprintf ''  [%zd] ??? [%p]\<newline>'' [Z 0, P 3]]"
  using print_backtrace_recent [of fresh_world three_captures 2 False render_unknown True]
  by (auto simp: context_glibc_def fresh_world_def allocs_ok_def three_captures_def
        capture_ok_def trace_lines_glibc_def backtrace_def frame_line_glibc_def
        render_unknown_def)

lemma ring_slots_cover:
  assumes "0 \<le> c" and "c < 10" and "k < 10"
  shows "\<exists>i. 1 \<le> i \<and> i \<le> 10 \<and> k = nat ((c - int i) mod 10)"
proof (cases "1 \<le> c - int k")
  case True
  define i where "i = nat (c - int k)"
  from True assms have i: "1 \<le> i" "i \<le> 10" "c - int i = int k"
    by (auto simp: i_def)
  from assms(3) have "k = nat ((c - int i) mod 10)"
    by (simp add: i(3) mod10_pos)
  with i show ?thesis by blast
next
  case False
  define i where "i = nat (c - int k + 10)"
  from False assms have i: "1 \<le> i" "i \<le> 10" "c - int i = int k - 10"
    by (auto simp: i_def)
  from assms(3) have "k = nat ((c - int i) mod 10)"
    by (simp add: i(3) mod10_neg)
  with i show ?thesis by blast
qed

text \<open>
  Claim C2, as amended. After more than \<open>SAVE_TRACES\<close> capture calls the ring holds exactly
  the \<open>SAVE_TRACES\<close> most recent traces: the slot at cursor minus \<open>i\<close> holds the \<open>i\<close>-th most
  recent one for every \<open>i\<close> from 1 to \<open>SAVE_TRACES\<close>, and these are all the slots. A label that
  none of the \<open>SAVE_TRACES\<close> most recent calls used is in no slot; the last call is returned as
  most recent 1 and the call \<open>SAVE_TRACES - 1\<close> before it as most recent \<open>SAVE_TRACES\<close>. For
  the labels \<open>L0 .. LK\<close> it is \<open>L0\<close> that is gone, and \<open>L1\<close> is the oldest trace kept.
\<close>

theorem ring_overwrites_oldest:
  assumes "context_glibc w" and "allocs_ok cs" and "SAVE_TRACES < length cs"
  shows "\<exists>w' s. captures_glibc cas cs w = Inr w' \<and> store_of w' = Some s
           \<and> (\<forall>i. 1 \<le> i \<and> i \<le> SAVE_TRACES \<longrightarrow>
                 slot_glibc s (nat ((current s - int i) mod SAVE_TRACES))
                   = entry_glibc (cs ! (length cs - i)))
           \<and> (\<forall>k<SAVE_TRACES. \<exists>i. 1 \<le> i \<and> i \<le> SAVE_TRACES
                 \<and> k = nat ((current s - int i) mod SAVE_TRACES))
           \<and> (\<forall>l. l \<notin> snd ` set (drop (length cs - SAVE_TRACES) cs) \<longrightarrow>
                 (\<forall>k<SAVE_TRACES. why s ! k \<noteq> Some l))
           \<and> most_recent_glibc E cas mo cs w 1
               = Inr (trace_lines_glibc E (snd (last cs)) (backtrace (stack (fst (last cs))) 100))
           \<and> most_recent_glibc E cas mo cs w SAVE_TRACES
               = Inr (trace_lines_glibc E (snd (cs ! (length cs - SAVE_TRACES)))
                       (backtrace (stack (fst (cs ! (length cs - SAVE_TRACES)))) 100))"
proof -
  from assms(3) have ne: "cs \<noteq> []" and len: "10 \<le> length cs" by auto
  from recent_glibc [OF assms(1,2) ne, of cas E mo]
  obtain w' s where run: "captures_glibc cas cs w = Inr w'" and st: "store_of w' = Some s"
    and wf: "wf_glibc s"
    and all: "\<And>i. 1 \<le> i \<Longrightarrow> i \<le> length cs \<Longrightarrow> i \<le> 10 \<Longrightarrow>
        slot_glibc s (nat ((current s - int i) mod 10)) = entry_glibc (cs ! (length cs - i))
        \<and> print_backtrace_glibc E mo (int i) w'
            = (Inr (trace_lines_glibc E (snd (cs ! (length cs - i)))
                     (backtrace (stack (fst (cs ! (length cs - i)))) 100)), w')"
    by blast
  from wf have c: "0 \<le> current s" "current s < 10" by (simp_all add: wf_glibc_def)
  have slots: "slot_glibc s (nat ((current s - int i) mod 10)) = entry_glibc (cs ! (length cs - i))"
    if "1 \<le> i" "i \<le> 10" for i
    using all [of i] that len by simp
  have cover: "\<exists>i. 1 \<le> i \<and> i \<le> 10 \<and> k = nat ((current s - int i) mod 10)" if "k < 10" for k
    using ring_slots_cover [OF c that] .
  have absent: "why s ! k \<noteq> Some l"
    if l: "l \<notin> snd ` set (drop (length cs - 10) cs)" and k: "k < 10" for l k
  proof
    assume eq: "why s ! k = Some l"
    from cover [OF k] obtain i where i: "1 \<le> i" "i \<le> 10"
      and ki: "k = nat ((current s - int i) mod 10)"
      by blast
    from slots [OF i] ki have "why s ! k = Some (snd (cs ! (length cs - i)))"
      by (simp add: slot_glibc_def entry_glibc_def)
    with eq have "l = snd (cs ! (length cs - i))" by simp
    moreover have "cs ! (length cs - i) \<in> set (drop (length cs - 10) cs)"
    proof -
      have "cs ! (length cs - i) = drop (length cs - 10) cs ! (10 - i)"
        using i len by simp
      moreover have "10 - i < length (drop (length cs - 10) cs)"
        using i len by simp
      ultimately show ?thesis by (metis nth_mem)
    qed
    ultimately show False using l by blast
  qed
  have first: "most_recent_glibc E cas mo cs w 1
      = Inr (trace_lines_glibc E (snd (last cs)) (backtrace (stack (fst (last cs))) 100))"
    using all [of 1] run ne len by (simp add: most_recent_glibc_def last_conv_nth)
  have kth: "most_recent_glibc E cas mo cs w 10
      = Inr (trace_lines_glibc E (snd (cs ! (length cs - 10)))
              (backtrace (stack (fst (cs ! (length cs - 10)))) 100))"
    using all [of 10] run len by (simp add: most_recent_glibc_def)
  from run st slots cover absent first kth show ?thesis
    by blast
qed

theorem ring_overwrites_oldest_witness:
  "context_glibc fresh_world \<and> allocs_ok (labelled L0_to_LK)
   \<and> SAVE_TRACES < length (labelled L0_to_LK)
   \<and> most_recent_glibc render_unknown True True (labelled L0_to_LK) fresh_world 1
       = Inr [Sdprintf ''C-stack trace labeled \"%s\":\<newline>'' [S ''L10'']]
   \<and> most_recent_glibc render_unknown True True (labelled L0_to_LK) fresh_world 10
       = Inr [Sdprintf ''C-stack trace labeled \"%s\":\<newline>'' [S ''L1'']]"
  using ring_overwrites_oldest [of fresh_world "labelled L0_to_LK" True render_unknown True]
  by (auto simp: context_glibc_def fresh_world_def allocs_ok_def labelled_def L0_to_LK_def
        capture_ok_def trace_lines_glibc_def backtrace_def)

text \<open>The claim as first stated fails: after the eleven captures \<open>L0 .. L10\<close> the label \<open>L1\<close> is
  still there, returned as most recent \<open>SAVE_TRACES\<close>.\<close>

theorem L1_retained_counterexample:
  "most_recent_glibc render_unknown True True (labelled L0_to_LK) fresh_world SAVE_TRACES
     = Inr [Sdprintf ''C-stack trace labeled \"%s\":\<newline>'' [S ''L1'']]"
proof -
  let ?cs = "labelled L0_to_LK"
  have ctx: "context_glibc (fresh_world :: btrace_glibc world)"
    by (simp add: context_glibc_def fresh_world_def)
  have ok: "allocs_ok ?cs"
    by (simp add: allocs_ok_def labelled_def L0_to_LK_def capture_ok_def)
  have len: "length ?cs = 11"
    by (simp add: labelled_def L0_to_LK_def)
  then have ne: "?cs \<noteq> []" by auto
  have nth: "?cs ! Suc 0 = (capture_ok [], ''L1'')"
    by (simp add: labelled_def L0_to_LK_def)
  from recent_glibc [OF ctx ok ne, of True render_unknown True]
  obtain w' where run: "captures_glibc True ?cs fresh_world = Inr w'"
    and all: "\<And>i. 1 \<le> i \<Longrightarrow> i \<le> length ?cs \<Longrightarrow> i \<le> 10 \<Longrightarrow>
        print_backtrace_glibc render_unknown True (int i) w'
          = (Inr (trace_lines_glibc render_unknown (snd (?cs ! (length ?cs - i)))
                   (backtrace (stack (fst (?cs ! (length ?cs - i)))) 100)), w')"
    by blast
  from all [of 10] len
  have "print_backtrace_glibc render_unknown True 10 w'
          = (Inr (trace_lines_glibc render_unknown ''L1'' (backtrace (stack (capture_ok [])) 100)), w')"
    by (simp add: nth)
  with run show ?thesis
    by (simp add: most_recent_glibc_def trace_lines_glibc_def backtrace_def capture_ok_def)
qed

subsection \<open>Lookup by label (glibc variant)\<close>

lemma named_loop_glibc_wrap:
  "named_loop_glibc E bt l (- 1) = named_loop_glibc E bt l 9"
  by (simp add: named_loop_glibc.simps [of E bt l "- 1"] named_loop_glibc.simps [of E bt l 9])

lemma named_loop_glibc_norm:
  assumes "- 1 \<le> m" and "m < 10"
  shows "named_loop_glibc E bt l m = named_loop_glibc E bt l (m mod 10)"
proof (cases "m = - 1")
  case True
  then show ?thesis by (simp add: named_loop_glibc_wrap)
next
  case False
  with assms have "m mod 10 = m" by (simp add: mod10_pos)
  then show ?thesis by simp
qed

lemma scan_list_Suc:
  "map (\<lambda>k. nat ((m - int k) mod 10)) [0..<Suc (Suc n)]
     = nat (m mod 10) # map (\<lambda>k. nat (((m - 1) mod 10 - int k) mod 10)) [0..<Suc n]"
proof -
  have "[0..<Suc (Suc n)] = 0 # map Suc [0..<Suc n]"
    by (simp only: map_Suc_upt upt_conv_Cons [of 0 "Suc (Suc n)"])
  moreover have "(m - int (Suc k)) mod 10 = ((m - 1) mod 10 - int k) mod 10" for k
    by (simp add: mod_simps algebra_simps)
  ultimately show ?thesis
    by (simp add: comp_def del: upt_Suc)
qed

lemma named_loop_glibc_scan:
  assumes c: "0 \<le> current bt" "current bt < 10"
  shows "0 \<le> m \<Longrightarrow> m < 10 \<Longrightarrow> (m - current bt) mod 10 = int n \<Longrightarrow>
     named_loop_glibc E bt l m
       = Some (case find (\<lambda>me. why bt ! me = Some l)
                      (map (\<lambda>k. nat ((m - int k) mod 10)) [0..<Suc n]) of
                 Some me \<Rightarrow> print_trace_glibc E bt (int me)
               | None \<Rightarrow> Inr [Sdprintf ''No backtrace named %s\<newline>'' [S l]])"
proof (induction n arbitrary: m)
  case 0
  from 0 c have m: "m = current bt"
    by (simp add: mod10_cases split: if_splits)
  from c show ?case
    unfolding m
    by (simp add: named_loop_glibc.simps [of E bt l "current bt"] mod10_pos)
next
  case (Suc n)
  let ?m' = "(m - 1) mod 10"
  from Suc.prems c have ne: "m \<noteq> current bt" by auto
  from Suc.prems have m': "0 \<le> ?m'" "?m' < 10" by simp_all
  have "(m - current bt) mod 10 < 10" by simp
  with Suc.prems(3) have n: "int n < 9" by simp
  have "(?m' - current bt) mod 10 = ((m - current bt) mod 10 - 1) mod 10"
    by (simp add: mod_simps algebra_simps)
  also have "\<dots> = int n"
    using Suc.prems(3) n by (simp add: mod10_pos)
  finally have step: "(?m' - current bt) mod 10 = int n" .
  note IH = Suc.IH [OF m' step]
  have next_call: "named_loop_glibc E bt l (m - 1) = named_loop_glibc E bt l ?m'"
    using Suc.prems by (intro named_loop_glibc_norm) simp_all
  show ?case
    using Suc.prems(1,2) ne
    by (simp add: named_loop_glibc.simps [of E bt l m] scan_list_Suc next_call IH mod10_pos
          del: upt_Suc)
qed

lemma named_loop_glibc_entry:
  assumes "wf_glibc bt"
  shows "named_loop_glibc E bt l (current bt - 1)
       = Some (case first_match_glibc bt l of
                 Some me \<Rightarrow> print_trace_glibc E bt (int me)
               | None \<Rightarrow> Inr [Sdprintf ''No backtrace named %s\<newline>'' [S l]])"
proof -
  from assms have c: "0 \<le> current bt" "current bt < 10" by (simp_all add: wf_glibc_def)
  let ?m = "(current bt - 1) mod 10"
  have norm: "named_loop_glibc E bt l (current bt - 1) = named_loop_glibc E bt l ?m"
    using c by (intro named_loop_glibc_norm) simp_all
  have "(?m - current bt) mod 10 = (- 1) mod 10"
    by (simp add: mod_simps)
  then have nine: "(?m - current bt) mod 10 = int 9" by simp
  have "(?m - int k) mod 10 = (current bt - 1 - int k) mod 10" for k
    by (simp add: mod_simps)
  then have order: "map (\<lambda>k. nat ((?m - int k) mod 10)) [0..<Suc 9] = scan_order (current bt)"
    by (simp add: scan_order_def del: upt_Suc)
  from named_loop_glibc_scan [OF c _ _ nine, of E l]
  show ?thesis
    by (simp only: norm order first_match_glibc_def)
qed

lemma scan_order_unfold2:
  "\<exists>rest. scan_order c = nat ((c - 1) mod 10) # nat ((c - 2) mod 10) # rest"
proof -
  have "[0..<10] = 0 # 1 # [2..<10]"
    by (simp add: upt_conv_Cons)
  then show ?thesis
    by (simp add: scan_order_def del: upt_Suc)
qed

lemma print_backtrace_named_glibc_store:
  assumes "store_of w = Some bt" and "wf_glibc bt"
  shows "print_backtrace_named_glibc E mo l w
       = (Some (case first_match_glibc bt l of
                  Some me \<Rightarrow> print_trace_glibc E bt (int me)
                | None \<Rightarrow> Inr [Sdprintf ''No backtrace named %s\<newline>'' [S l]]), w)"
proof -
  from assms(1) obtain ld p where
    w: "LD w = Some ld" "btrace_store ld = Some p" "deref (heap w) p = Some bt"
    by (blast dest: store_of_SomeD)
  then show ?thesis
    by (simp add: print_backtrace_named_glibc_def get_trace_store_glibc_def
          bstore_print_backtrace_named_glibc_def named_loop_glibc_entry [OF assms(2)])
qed

lemma scan_order_once:
  assumes "0 \<le> c" and "c < 10"
  shows "distinct (scan_order c) \<and> set (scan_order c) = {0..<10} \<and> hd (scan_order c) = nat ((c - 1) mod 10)"
proof -
  from assms have "c = 0 \<or> c = 1 \<or> c = 2 \<or> c = 3 \<or> c = 4 \<or> c = 5 \<or> c = 6 \<or> c = 7 \<or> c = 8 \<or> c = 9"
    by arith
  moreover have up: "[0..<10] = [0, 1, 2, 3, 4, 5, 6, 7, 8, 9]"
    by (simp add: upt_conv_Cons)
  have set: "{0..<10::nat} = set [0..<10]" by simp
  ultimately show ?thesis
    unfolding scan_order_def set up
    by (elim disjE) (simp_all, blast+)
qed

text \<open>
  Claim C3. On a context with a well-formed store, \<open>print_backtrace_named(label)\<close> returns, and
  what it writes is \<open>print_trace\<close> of the first slot, in the order that starts at the slot
  before the cursor and goes backwards through every slot exactly once, whose label equals
  the one searched for (the not-found line if there is none). After captures labelled
  \<open>gc\<close>, \<open>gc\<close>, \<open>crash\<close>, in that order, searching for \<open>gc\<close> writes the trace of the
  second capture.
\<close>

theorem named_lookup_most_recent:
  assumes "store_of w = Some bt" and "wf_glibc bt" and "context_glibc w0"
  shows "print_backtrace_named_glibc E mo l w
           = (Some (case first_match_glibc bt l of
                      Some me \<Rightarrow> print_trace_glibc E bt (int me)
                    | None \<Rightarrow> Inr [Sdprintf ''No backtrace named %s\<newline>'' [S l]]), w)
         \<and> hd (scan_order (current bt)) = nat ((current bt - 1) mod SAVE_TRACES)
         \<and> distinct (scan_order (current bt))
         \<and> set (scan_order (current bt)) = {0..<SAVE_TRACES}
         \<and> named_after_glibc E cas mo
              [(capture_ok s1, ''gc''), (capture_ok s2, ''gc''), (capture_ok s3, ''crash'')] w0 ''gc''
           = Some (Inr (trace_lines_glibc E ''gc'' (backtrace s2 100)))"
proof -
  let ?cs = "[(capture_ok s1, ''gc''), (capture_ok s2, ''gc''), (capture_ok s3, ''crash'')]"
  have ok: "allocs_ok ?cs" by (simp add: allocs_ok_def capture_ok_def)
  from recent_glibc [OF assms(3) ok, of cas E mo]
  obtain w' s where run: "captures_glibc cas ?cs w0 = Inr w'" and st: "store_of w' = Some s"
    and wf: "wf_glibc s"
    and all: "\<And>i. 1 \<le> i \<Longrightarrow> i \<le> length ?cs \<Longrightarrow> i \<le> 10 \<Longrightarrow>
        slot_glibc s (nat ((current s - int i) mod 10)) = entry_glibc (?cs ! (length ?cs - i))"
    by blast
  from all [of 1] have s1: "why s ! nat ((current s - 1) mod 10) = Some ''crash''"
    by (simp add: slot_glibc_def entry_glibc_def)
  from all [of 2] have s2: "slot_glibc s (nat ((current s - 2) mod 10))
      = (Some ''gc'', length (backtrace s2 100), Some (backtrace s2 100))"
    by (simp add: entry_glibc_def capture_ok_def)
  then have s2': "why s ! nat ((current s - 2) mod 10) = Some ''gc''"
    by (simp add: slot_glibc_def)
  from scan_order_unfold2 [of "current s"] s1 s2'
  have "first_match_glibc s ''gc'' = Some (nat ((current s - 2) mod 10))"
    by (auto simp: first_match_glibc_def)
  moreover have "print_trace_glibc E s ((current s - 2) mod 10)
      = Inr (trace_lines_glibc E ''gc'' (backtrace s2 100))"
    by (rule print_trace_glibc_slot [OF _ _ s2]) simp_all
  ultimately have "named_after_glibc E cas mo ?cs w0 ''gc''
      = Some (Inr (trace_lines_glibc E ''gc'' (backtrace s2 100)))"
    using run print_backtrace_named_glibc_store [OF st wf, of E mo "''gc''"]
    by (simp add: named_after_glibc_def)
  moreover from assms(2) have "0 \<le> current bt" "current bt < 10"
    by (simp_all add: wf_glibc_def)
  note scan_order_once [OF this]
  ultimately show ?thesis
    using print_backtrace_named_glibc_store [OF assms(1,2), of E mo l] by simp
qed

theorem named_lookup_most_recent_witness:
  "store_of (\<lparr>heap = [Some (zeroed_glibc\<lparr>shared := True\<rparr>)], LD = Some \<lparr>btrace_store = Some 0\<rparr>\<rparr>)
     = Some (zeroed_glibc\<lparr>shared := True\<rparr>)
   \<and> wf_glibc (zeroed_glibc\<lparr>shared := True\<rparr>)
   \<and> context_glibc fresh_world
   \<and> print_backtrace_named_glibc render_unknown True ''gc''
        \<lparr>heap = [Some (zeroed_glibc\<lparr>shared := True\<rparr>)], LD = Some \<lparr>btrace_store = Some 0\<rparr>\<rparr>
       = (Some (Inr [Sdprintf ''No backtrace named %s\<newline>'' [S ''gc'']]),
          \<lparr>heap = [Some (zeroed_glibc\<lparr>shared := True\<rparr>)], LD = Some \<lparr>btrace_store = Some 0\<rparr>\<rparr>)
   \<and> named_after_glibc render_unknown True True
        [(capture_ok [1, 2], ''gc''), (capture_ok [3], ''gc''), (capture_ok [4, 5], ''crash'')]
        fresh_world ''gc''
       = Some (Inr [Sdprintf ''C-stack trace labeled \"%s\":\<newline>'' [S ''gc''],
                    Sdprintf ''  [%zd] ??? [%p]\<newline>'' [Z 0, P 3]])"
  using named_lookup_most_recent
    [of "\<lparr>heap = [Some (zeroed_glibc\<lparr>shared := True\<rparr>)], LD = Some \<lparr>btrace_store = Some 0\<rparr>\<rparr>"
        "zeroed_glibc\<lparr>shared := True\<rparr>" fresh_world render_unknown True "''gc''" True
        "[1, 2]" "[3]" "[4, 5]"]
  by (simp add: store_of_def deref_def wf_glibc_def zeroed_glibc_def context_glibc_def
        fresh_world_def first_match_glibc_def scan_order_def trace_lines_glibc_def
        backtrace_def frame_line_glibc_def render_unknown_def upt_conv_Cons)

subsection \<open>Clearing the store, allocation failure (glibc variant)\<close>

lemma c_backtrace_clear_glibc:
  assumes "context_glibc w"
  shows "\<exists>w1 ld1. c_backtrace_clear btrace_destroy_glibc w = Inr (True, w1)
           \<and> LD w1 = Some ld1 \<and> btrace_store ld1 = None
           \<and> (\<forall>ld p. LD w = Some ld \<and> btrace_store ld = Some p \<longrightarrow> deref (heap w1) p = None)"
proof -
  from assms obtain ld where ld: "LD w = Some ld"
    by (auto simp: context_glibc_def split: option.splits)
  show ?thesis
  proof (cases "btrace_store ld")
    case None
    with ld show ?thesis by (simp add: c_backtrace_clear_def)
  next
    case (Some p)
    with ld assms obtain s where s: "deref (heap w) p = Some s"
      by (auto simp: context_glibc_def split: option.splits)
    then have "p < length (heap w)" by (auto simp: deref_def split: if_splits)
    with ld Some s show ?thesis
      by (simp add: c_backtrace_clear_def btrace_destroy_glibc_def free_def deref_def)
  qed
qed

text \<open>
  Claim C7. On a context whose store, if any, is well formed, \<open>c_backtrace_clear\<close> returns
  \<open>TRUE\<close>, frees the store and sets \<open>LD->btrace_store\<close> to \<open>NULL\<close>. A capture that follows,
  its allocations succeeding, allocates a new store at a new address; that store has a label
  in slot 0 only, and \<open>print_backtrace(1)\<close> writes the trace just captured.
\<close>

theorem clear_then_capture:
  assumes "context_glibc w" and "malloc_store c" and "malloc_frames c"
  shows "\<exists>w1 ld1 w2 s. c_backtrace_clear btrace_destroy_glibc w = Inr (True, w1)
           \<and> LD w1 = Some ld1 \<and> btrace_store ld1 = None
           \<and> (\<forall>ld p. LD w = Some ld \<and> btrace_store ld = Some p \<longrightarrow> deref (heap w1) p = None)
           \<and> save_backtrace_glibc cas c l w1 = Inr (Some (length (heap w1)), w2)
           \<and> store_of w2 = Some s
           \<and> s = put_glibc (c, l) (zeroed_glibc\<lparr>shared := True\<rparr>)
           \<and> labels_glibc s = [0]
           \<and> print_backtrace_glibc E mo 1 w2
               = (Inr (trace_lines_glibc E l (backtrace (stack c) 100)), w2)"
proof -
  from c_backtrace_clear_glibc [OF assms(1)]
  obtain w1 ld1 where clr: "c_backtrace_clear btrace_destroy_glibc w = Inr (True, w1)"
    and ld1: "LD w1 = Some ld1" "btrace_store ld1 = None"
    and gone: "\<forall>ld p. LD w = Some ld \<and> btrace_store ld = Some p \<longrightarrow> deref (heap w1) p = None"
    by blast
  let ?s = "put_glibc (c, l) (zeroed_glibc\<lparr>shared := True\<rparr>)"
  let ?w2 = "\<lparr>heap = heap w1 @ [Some ?s], LD = Some (ld1\<lparr>btrace_store := Some (length (heap w1))\<rparr>)\<rparr>"
  have save: "save_backtrace_glibc cas c l w1 = Inr (Some (length (heap w1)), ?w2)"
    using ld1 assms(2)
    by (simp add: save_backtrace_glibc_def get_trace_store_glibc_def malloc_def deref_def
          next_btrace_id_in_range put_glibc_def entry_glibc_def Let_def zeroed_glibc_def)
  have st: "store_of ?w2 = Some ?s"
    by (simp add: store_of_def deref_def)
  have wf: "wf_glibc ?s"
    by (rule wf_put_glibc [OF wf_zeroed_glibc])
  have one: "labels_glibc ?s = [0]"
    by (simp add: labels_glibc_def put_glibc_def entry_glibc_def zeroed_glibc_def
          upt_conv_Cons)
  have slot: "slot_glibc ?s (nat ((current ?s - 1) mod 10))
      = (Some l, length (backtrace (stack c) 100), Some (backtrace (stack c) 100))"
    using assms(3)
    by (simp add: slot_glibc_def put_glibc_def entry_glibc_def zeroed_glibc_def)
  have "print_trace_glibc E ?s ((current ?s - 1) mod 10)
      = Inr (trace_lines_glibc E l (backtrace (stack c) 100))"
    by (rule print_trace_glibc_slot [OF _ _ slot]) simp_all
  with print_backtrace_glibc_store [OF st wf, of 1 E mo]
  have "print_backtrace_glibc E mo 1 ?w2
      = (Inr (trace_lines_glibc E l (backtrace (stack c) 100)), ?w2)"
    by simp
  with clr ld1 gone save st one show ?thesis by blast
qed

theorem clear_then_capture_witness:
  "context_glibc used_world \<and> malloc_store (capture_ok [8, 9]) \<and> malloc_frames (capture_ok [8, 9])
   \<and> c_backtrace_clear btrace_destroy_glibc used_world
       = Inr (True, \<lparr>heap = [None], LD = Some \<lparr>btrace_store = None\<rparr>\<rparr>)
   \<and> fst (print_backtrace_glibc render_unknown True 1
        (case save_backtrace_glibc True (capture_ok [8, 9]) ''new''
                \<lparr>heap = [None], LD = Some \<lparr>btrace_store = None\<rparr>\<rparr> of
           Inr r \<Rightarrow> snd r | Inl e \<Rightarrow> used_world))
       = Inr [Sdprintf ''C-stack trace labeled \"%s\":\<newline>'' [S ''new''],
              Sdprintf ''  [%zd] ??? [%p]\<newline>'' [Z 0, P 8],
              Sdprintf ''  [%zd] ??? [%p]\<newline>'' [Z 1, P 9]]"
proof -
  have ctx: "context_glibc used_world"
    by (simp add: context_glibc_def used_world_def deref_def wf_put_glibc wf_zeroed_glibc)
  have clr: "c_backtrace_clear btrace_destroy_glibc used_world
       = Inr (True, \<lparr>heap = [None], LD = Some \<lparr>btrace_store = None\<rparr>\<rparr>)"
    by (simp add: c_backtrace_clear_def btrace_destroy_glibc_def free_def deref_def
          used_world_def)
  from clear_then_capture [OF ctx, of "capture_ok [8, 9]" True "''new''" render_unknown True] clr
  show ?thesis
    using ctx
    by (auto simp: capture_ok_def trace_lines_glibc_def backtrace_def frame_line_glibc_def
          render_unknown_def)
qed

text \<open>
  Claim C8. When the context has no store and the allocation of one fails, \<open>save_backtrace\<close>
  returns \<open>NULL\<close> and changes nothing. A later \<open>print_backtrace\<close> that again gets no store
  (the allocation fails again, or there is no \<open>LD\<close>) writes \<open>No backtrace store?\<close>; if its
  own allocation succeeds it writes \<open>No stack trace\<close> for the empty slot. It faults in neither
  case.
\<close>

theorem alloc_failure_no_store:
  assumes "no_store w" and "\<not> malloc_store c"
  shows "save_backtrace_glibc cas c l w = Inr (None, w)
         \<and> print_backtrace_glibc E False lst w
             = (Inr [Sdprintf ''No backtrace store?\<newline>'' []], w)
         \<and> (LD w = None \<longrightarrow>
              print_backtrace_glibc E mo lst w
                = (Inr [Sdprintf ''No backtrace store?\<newline>'' []], w))
         \<and> (LD w \<noteq> None \<and> 1 \<le> lst \<and> lst \<le> SAVE_TRACES \<longrightarrow>
              fst (print_backtrace_glibc E True lst w)
                = Inr [Sdprintf ''No stack trace\<newline>'' []])"
  using assms
  by (auto simp: no_store_def save_backtrace_glibc_def get_trace_store_glibc_def malloc_def
        print_backtrace_glibc_def deref_def Let_def print_trace_glibc_def zeroed_glibc_def
        split: option.splits)

theorem alloc_failure_no_store_witness:
  "no_store (fresh_world :: btrace_glibc world)
   \<and> \<not> malloc_store \<lparr>stack = [1, 2], malloc_store = False, malloc_frames = True\<rparr>
   \<and> save_backtrace_glibc True \<lparr>stack = [1, 2], malloc_store = False, malloc_frames = True\<rparr>
        ''gc'' fresh_world = Inr (None, fresh_world)
   \<and> print_backtrace_glibc render_unknown False 1 fresh_world
        = (Inr [Sdprintf ''No backtrace store?\<newline>'' []], fresh_world)
   \<and> fst (print_backtrace_glibc render_unknown True 1 fresh_world)
        = Inr [Sdprintf ''No stack trace\<newline>'' []]"
  using alloc_failure_no_store
    [of fresh_world "\<lparr>stack = [1, 2], malloc_store = False, malloc_frames = True\<rparr>"
        True "''gc''" render_unknown 1 True]
  by (simp add: no_store_def fresh_world_def)

subsection \<open>Number of frames stored\<close>

lemma unw_walk_depth:
  "k \<le> MAX_DEPTH \<Longrightarrow> fst (unw_walk steps k fr) = min (k + length steps) MAX_DEPTH"
  by (induction steps arbitrary: k fr) auto


lemma StackWalk_loop_depth:
  "k \<le> MAX_DEPTH \<Longrightarrow>
   fst (StackWalk_loop ld fs skip k fr) = min (k + (length fs - skip)) MAX_DEPTH"
  by (induction fs arbitrary: skip k fr) auto


lemma backtrace_win_depth:
  "fst (backtrace_win ld wk fr)
     = (if SymInitialize wk
        then min (length (StackWalk64 wk) - (if pExceptionInfo wk then 0 else 2)) MAX_DEPTH
        else 0)"
  by (simp add: backtrace_win_def Let_def StackWalk_loop_depth)

lemma wf_zeroed_unw: "wf_dumps (zeroed_unw\<lparr>shared := b\<rparr>)"
  by (simp add: wf_dumps_def zeroed_unw_def list_all_iff)

lemma wf_zeroed_win: "wf_dumps (zeroed_win\<lparr>shared := b\<rparr>)"
  by (simp add: wf_dumps_def zeroed_win_def list_all_iff)

lemma wf_zeroed_win': "wf_dumps zeroed_win"
  by (simp add: wf_dumps_def zeroed_win_def list_all_iff)

lemma deref_append_new: "deref (h @ [Some s]) (length h) = Some s"
  by (simp add: deref_def)

lemma get_trace_store_unw_context:
  assumes "context_dumps w"
  shows "\<exists>p w1 s0. get_trace_store_unw True create w = (Some p, w1)
           \<and> deref (heap w1) p = Some s0 \<and> wf_dumps s0"
proof -
  from assms obtain ld where ld: "LD w = Some ld"
    by (auto simp: context_dumps_def split: option.splits)
  show ?thesis
  proof (cases "btrace_store ld")
    case None
    with ld have "get_trace_store_unw True create w
        = (Some (length (heap w)),
           w\<lparr>heap := heap w @ [Some (zeroed_unw\<lparr>shared := True\<rparr>)],
             LD := Some (ld\<lparr>btrace_store := Some (length (heap w))\<rparr>)\<rparr>)"
      by (simp add: get_trace_store_unw_def malloc_def)
    with wf_zeroed_unw [of True] show ?thesis
      by (auto simp: deref_append_new)
  next
    case (Some p)
    with ld assms obtain s where "deref (heap w) p = Some s" "wf_dumps s"
      by (auto simp: context_dumps_def split: option.splits)
    with ld Some show ?thesis
      by (simp add: get_trace_store_unw_def)
  qed
qed

lemma get_trace_store_win_context:
  assumes "context_dumps w"
  shows "\<exists>p w1 s0. get_trace_store_win True True w = Inr (Some p, w1)
           \<and> deref (heap w1) p = Some s0 \<and> wf_dumps s0"
proof -
  from assms obtain ld where ld: "LD w = Some ld"
    by (auto simp: context_dumps_def split: option.splits)
  show ?thesis
  proof (cases "btrace_store ld")
    case None
    with ld have "get_trace_store_win True True w
        = Inr (Some (length (heap w)),
           w\<lparr>heap := heap w @ [Some (zeroed_win\<lparr>shared := True\<rparr>)],
             LD := Some (ld\<lparr>btrace_store := Some (length (heap w))\<rparr>)\<rparr>)"
      by (simp add: get_trace_store_win_def malloc_def)
    with wf_zeroed_win [of True] show ?thesis
      by (auto simp: deref_append_new)
  next
    case (Some p)
    with ld have "get_trace_store_win True True w
        = Inr (Some (length (heap w)), w\<lparr>heap := heap w @ [Some zeroed_win]\<rparr>)"
      by (simp add: get_trace_store_win_def malloc_def)
    with wf_zeroed_win' show ?thesis
      by (auto simp: deref_append_new)
  qed
qed

lemma stored_at_cursor:
  assumes "wf_dumps s"
  shows "(dumps s)[nat (current s) := d] ! nat (((current s + 1) mod 10 - 1) mod 10) = d"
proof -
  from assms have c: "0 \<le> current s" "current s < 10" and l: "length (dumps s) = 10"
    by (simp_all add: wf_dumps_def)
  from c l have "nat (current s) < length (dumps s)" by auto
  then show ?thesis by (simp add: ring_prev [OF c])
qed

lemma deref_update_same: "p < length h \<Longrightarrow> deref (h[p := Some s]) p = Some s"
  by (simp add: deref_def)

lemma deref_lt: "deref h p = Some s \<Longrightarrow> p < length h"
  by (auto simp: deref_def split: if_splits)

lemma stored_depth_unw_eq:
  assumes "context_dumps w"
  shows "stored_depth_unw cas True steps l w = Some (min (length steps) MAX_DEPTH)"
proof -
  from get_trace_store_unw_context [OF assms, of True]
  obtain p w1 s0 where g: "get_trace_store_unw True True w = (Some p, w1)"
    and d: "deref (heap w1) p = Some s0" and wf: "wf_dumps s0"
    by blast
  from wf have c: "0 \<le> current s0" "current s0 < 10" by (simp_all add: wf_dumps_def)
  have walk: "fst (unw_walk steps 0 fr) = min (length steps) 10" for fr
    using unw_walk_depth [of 0 steps fr] by simp
  show ?thesis
    using c
    by (simp add: stored_depth_unw_def save_backtrace_unw_def g d deref_update_same [OF deref_lt [OF d]]
          next_btrace_id_in_range [OF c] Let_def split_beta walk stored_at_cursor [OF wf])
qed

lemma stored_depth_win_eq:
  assumes "context_dumps w"
  shows "stored_depth_win cas ld True wk l w
       = Some (if SymInitialize wk then min (length (StackWalk64 wk) - 2) MAX_DEPTH else 0)"
proof -
  from get_trace_store_win_context [OF assms]
  obtain p w1 s0 where g: "get_trace_store_win True True w = Inr (Some p, w1)"
    and d: "deref (heap w1) p = Some s0" and wf: "wf_dumps s0"
    by blast
  from wf have c: "0 \<le> current s0" "current s0 < 10" by (simp_all add: wf_dumps_def)
  have walk: "fst (backtrace_win ld (wk\<lparr>pExceptionInfo := False\<rparr>) fr)
      = (if SymInitialize wk then min (length (StackWalk64 wk) - 2) 10 else 0)" for fr
    by (simp add: backtrace_win_depth)
  show ?thesis
    using c
    by (simp add: stored_depth_win_def save_backtrace_win_def win_save_backtrace_def g d
          deref_update_same [OF deref_lt [OF d]] next_btrace_id_in_range [OF c] Let_def
          split_beta walk stored_at_cursor [OF wf] bindF_def del: One_nat_def)
qed

lemma get_trace_store_glibc_context:
  assumes "context_glibc w" and "mo"
  shows "\<exists>p w1 s0. get_trace_store_glibc mo create w = (Some p, w1)
           \<and> deref (heap w1) p = Some s0 \<and> wf_glibc s0"
proof -
  from assms obtain ld where ld: "LD w = Some ld"
    by (auto simp: context_glibc_def split: option.splits)
  show ?thesis
  proof (cases "btrace_store ld")
    case None
    with ld assms(2) have "get_trace_store_glibc mo create w
        = (Some (length (heap w)),
           w\<lparr>heap := heap w @ [Some (zeroed_glibc\<lparr>shared := True\<rparr>)],
             LD := Some (ld\<lparr>btrace_store := Some (length (heap w))\<rparr>)\<rparr>)"
      by (simp add: get_trace_store_glibc_def malloc_def)
    with wf_zeroed_glibc [of True] show ?thesis
      by (auto simp: deref_append_new)
  next
    case (Some p)
    with ld assms obtain s where "deref (heap w) p = Some s" "wf_glibc s"
      by (auto simp: context_glibc_def split: option.splits)
    with ld Some show ?thesis
      by (simp add: get_trace_store_glibc_def)
  qed
qed

lemma stored_size_glibc_eq:
  assumes "context_glibc w" and "malloc_store c"
  shows "stored_size_glibc cas c l w = Some (min (length (stack c)) 100)"
proof -
  from get_trace_store_glibc_context [OF assms, of True]
  obtain p w1 s0 where g: "get_trace_store_glibc (malloc_store c) True w = (Some p, w1)"
    and d: "deref (heap w1) p = Some s0" and wf: "wf_glibc s0"
    by blast
  from wf have c: "0 \<le> current s0" "current s0 < 10" and len: "length (sizes s0) = 10"
    by (simp_all add: wf_glibc_def)
  from c len have "nat (current s0) < length (sizes s0)" by auto
  with c show ?thesis
    by (simp add: stored_size_glibc_def save_backtrace_glibc_def g d
          deref_update_same [OF deref_lt [OF d]] next_btrace_id_in_range [OF c] Let_def
          split_beta backtrace_def ring_prev [OF c] min.commute)
qed

text \<open>
  Claim C6, as amended. A capture call of the libunwind variant leaves at most \<open>MAX_DEPTH\<close>
  frames in the slot it fills (the number of successful \<open>unw_step\<close> calls, cut at
  \<open>MAX_DEPTH\<close>), and so does the Windows variant (the frames \<open>StackWalk64\<close> yields after the
  two skipped ones, cut at \<open>MAX_DEPTH\<close>; none when \<open>SymInitialize\<close> fails). The glibc variant
  has no \<open>MAX_DEPTH\<close>: it stores as many return addresses as \<open>backtrace\<close> puts into an array of
  100, so its bound is 100.
\<close>

theorem stored_depth_bounds:
  assumes "context_dumps wu" and "context_dumps ww" and "context_glibc wg" and "malloc_store c"
  shows "stored_depth_unw cas True steps l wu = Some (min (length steps) MAX_DEPTH)
         \<and> stored_depth_win cas ld True wk l ww
             = Some (if SymInitialize wk then min (length (StackWalk64 wk) - 2) MAX_DEPTH else 0)
         \<and> stored_size_glibc cas c l wg = Some (min (length (stack c)) 100)
         \<and> min (length steps) MAX_DEPTH \<le> MAX_DEPTH
         \<and> (if SymInitialize wk then min (length (StackWalk64 wk) - 2) MAX_DEPTH else 0) \<le> MAX_DEPTH
         \<and> min (length (stack c)) 100 \<le> 100"
  using assms
  by (simp add: stored_depth_unw_eq stored_depth_win_eq stored_size_glibc_eq)

theorem stored_depth_bounds_witness:
  "context_dumps (fresh_world :: btrace_unw world) \<and> context_dumps (fresh_world :: btrace_win world)
   \<and> context_glibc fresh_world \<and> malloc_store (capture_ok eleven_frames)
   \<and> stored_depth_unw True True (replicate 12 None) ''gc'' fresh_world = Some 10
   \<and> stored_depth_win True False True
        \<lparr>SymInitialize = True, pExceptionInfo = False, StackWalk64 = []\<rparr> ''gc'' fresh_world = Some 0
   \<and> stored_size_glibc True (capture_ok eleven_frames) ''gc'' fresh_world = Some 11"
  using stored_depth_bounds [of fresh_world fresh_world fresh_world "capture_ok eleven_frames"
      True "replicate 12 None" "''gc''" False
      "\<lparr>SymInitialize = True, pExceptionInfo = False, StackWalk64 = []\<rparr>"]
  by (simp add: context_dumps_def context_glibc_def fresh_world_def capture_ok_def
        eleven_frames_def)

text \<open>The claim as first stated fails for the glibc variant: with eleven return addresses on
  the stack the stored size is 11.\<close>

theorem glibc_stores_eleven_frames_counterexample:
  "stored_size_glibc True (capture_ok eleven_frames) ''gc'' fresh_world = Some 11"
  using stored_size_glibc_eq [of fresh_world "capture_ok eleven_frames" True "''gc''"]
  by (simp add: context_glibc_def fresh_world_def capture_ok_def eleven_frames_def)

subsection \<open>Lookup of a label that was never captured\<close>

lemma named_loop_unw_wrap:
  "named_loop_unw bt l (- 1) = named_loop_unw bt l 9"
  by (simp add: named_loop_unw.simps [of bt l "- 1"] named_loop_unw.simps [of bt l 9])

lemma named_loop_unw_norm:
  assumes "- 1 \<le> m" and "m < 10"
  shows "named_loop_unw bt l m = named_loop_unw bt l (m mod 10)"
proof (cases "m = - 1")
  case True
  then show ?thesis by (simp add: named_loop_unw_wrap)
next
  case False
  with assms have "m mod 10 = m" by (simp add: mod10_pos)
  then show ?thesis by simp
qed

lemma named_loop_unw_scan:
  assumes c: "0 \<le> current bt" "current bt < 10"
  shows "0 \<le> m \<Longrightarrow> m < 10 \<Longrightarrow> (m - current bt) mod 10 = int n \<Longrightarrow>
     named_loop_unw bt l m
       = Some (case find (\<lambda>me. name (dumps bt ! me) = Some l)
                      (map (\<lambda>k. nat ((m - int k) mod 10)) [0..<Suc n]) of
                 Some me \<Rightarrow> print_trace_unw bt (int me)
               | None \<Rightarrow> Inr [])"
proof (induction n arbitrary: m)
  case 0
  from 0 c have m: "m = current bt"
    by (simp add: mod10_cases split: if_splits)
  from c show ?case
    unfolding m
    by (simp add: named_loop_unw.simps [of bt l "current bt"] mod10_pos)
next
  case (Suc n)
  let ?m' = "(m - 1) mod 10"
  from Suc.prems c have ne: "m \<noteq> current bt" by auto
  from Suc.prems have m': "0 \<le> ?m'" "?m' < 10" by simp_all
  have "(m - current bt) mod 10 < 10" by simp
  with Suc.prems(3) have n: "int n < 9" by simp
  have "(?m' - current bt) mod 10 = ((m - current bt) mod 10 - 1) mod 10"
    by (simp add: mod_simps algebra_simps)
  also have "\<dots> = int n"
    using Suc.prems(3) n by (simp add: mod10_pos)
  finally have step: "(?m' - current bt) mod 10 = int n" .
  note IH = Suc.IH [OF m' step]
  have next_call: "named_loop_unw bt l (m - 1) = named_loop_unw bt l ?m'"
    using Suc.prems by (intro named_loop_unw_norm) simp_all
  show ?case
    using Suc.prems(1,2) ne
    by (simp add: named_loop_unw.simps [of bt l m] scan_list_Suc next_call IH mod10_pos
          del: upt_Suc)
qed

lemma named_loop_unw_entry:
  assumes "wf_dumps bt"
  shows "named_loop_unw bt l (current bt - 1)
       = Some (case first_match_dumps bt l of
                 Some me \<Rightarrow> print_trace_unw bt (int me)
               | None \<Rightarrow> Inr [])"
proof -
  from assms have c: "0 \<le> current bt" "current bt < 10" by (simp_all add: wf_dumps_def)
  let ?m = "(current bt - 1) mod 10"
  have norm: "named_loop_unw bt l (current bt - 1) = named_loop_unw bt l ?m"
    using c by (intro named_loop_unw_norm) simp_all
  have "(?m - current bt) mod 10 = (- 1) mod 10"
    by (simp add: mod_simps)
  then have nine: "(?m - current bt) mod 10 = int 9" by simp
  have "(?m - int k) mod 10 = (current bt - 1 - int k) mod 10" for k
    by (simp add: mod_simps)
  then have order: "map (\<lambda>k. nat ((?m - int k) mod 10)) [0..<Suc 9] = scan_order (current bt)"
    by (simp add: scan_order_def del: upt_Suc)
  from named_loop_unw_scan [OF c _ _ nine, of l]
  show ?thesis
    by (simp only: norm order first_match_dumps_def)
qed

lemma named_loop_win_wrap:
  "named_loop_win ld srcline bt l (- 1) = named_loop_win ld srcline bt l 9"
  by (simp add: named_loop_win.simps [of ld srcline bt l "- 1"] named_loop_win.simps [of ld srcline bt l 9])

lemma named_loop_win_norm:
  assumes "- 1 \<le> m" and "m < 10"
  shows "named_loop_win ld srcline bt l m = named_loop_win ld srcline bt l (m mod 10)"
proof (cases "m = - 1")
  case True
  then show ?thesis by (simp add: named_loop_win_wrap)
next
  case False
  with assms have "m mod 10 = m" by (simp add: mod10_pos)
  then show ?thesis by simp
qed

lemma named_loop_win_scan:
  assumes c: "0 \<le> current bt" "current bt < 10"
  shows "0 \<le> m \<Longrightarrow> m < 10 \<Longrightarrow> (m - current bt) mod 10 = int n \<Longrightarrow>
     named_loop_win ld srcline bt l m
       = Some (case find (\<lambda>me. name (dumps bt ! me) = Some l)
                      (map (\<lambda>k. nat ((m - int k) mod 10)) [0..<Suc n]) of
                 Some me \<Rightarrow> print_trace_win ld srcline bt (int me)
               | None \<Rightarrow> Inr [])"
proof (induction n arbitrary: m)
  case 0
  from 0 c have m: "m = current bt"
    by (simp add: mod10_cases split: if_splits)
  from c show ?case
    unfolding m
    by (simp add: named_loop_win.simps [of ld srcline bt l "current bt"] mod10_pos)
next
  case (Suc n)
  let ?m' = "(m - 1) mod 10"
  from Suc.prems c have ne: "m \<noteq> current bt" by auto
  from Suc.prems have m': "0 \<le> ?m'" "?m' < 10" by simp_all
  have "(m - current bt) mod 10 < 10" by simp
  with Suc.prems(3) have n: "int n < 9" by simp
  have "(?m' - current bt) mod 10 = ((m - current bt) mod 10 - 1) mod 10"
    by (simp add: mod_simps algebra_simps)
  also have "\<dots> = int n"
    using Suc.prems(3) n by (simp add: mod10_pos)
  finally have step: "(?m' - current bt) mod 10 = int n" .
  note IH = Suc.IH [OF m' step]
  have next_call: "named_loop_win ld srcline bt l (m - 1) = named_loop_win ld srcline bt l ?m'"
    using Suc.prems by (intro named_loop_win_norm) simp_all
  show ?case
    using Suc.prems(1,2) ne
    by (simp add: named_loop_win.simps [of ld srcline bt l m] scan_list_Suc next_call IH mod10_pos
          del: upt_Suc)
qed

lemma named_loop_win_entry:
  assumes "wf_dumps bt"
  shows "named_loop_win ld srcline bt l (current bt - 1)
       = Some (case first_match_dumps bt l of
                 Some me \<Rightarrow> print_trace_win ld srcline bt (int me)
               | None \<Rightarrow> Inr [])"
proof -
  from assms have c: "0 \<le> current bt" "current bt < 10" by (simp_all add: wf_dumps_def)
  let ?m = "(current bt - 1) mod 10"
  have norm: "named_loop_win ld srcline bt l (current bt - 1) = named_loop_win ld srcline bt l ?m"
    using c by (intro named_loop_win_norm) simp_all
  have "(?m - current bt) mod 10 = (- 1) mod 10"
    by (simp add: mod_simps)
  then have nine: "(?m - current bt) mod 10 = int 9" by simp
  have "(?m - int k) mod 10 = (current bt - 1 - int k) mod 10" for k
    by (simp add: mod_simps)
  then have order: "map (\<lambda>k. nat ((?m - int k) mod 10)) [0..<Suc 9] = scan_order (current bt)"
    by (simp add: scan_order_def del: upt_Suc)
  from named_loop_win_scan [OF c _ _ nine, of ld srcline l]
  show ?thesis
    by (simp only: norm order first_match_dumps_def)
qed

lemma scan_order_lt: "0 \<le> c \<Longrightarrow> c < 10 \<Longrightarrow> me \<in> set (scan_order c) \<Longrightarrow> me < 10"
  using scan_order_once [of c] by simp

lemma first_match_dumps_None:
  assumes "wf_dumps s" and "Some l \<notin> set (map name (dumps s))"
  shows "first_match_dumps s l = None"
proof -
  from assms(1) have c: "0 \<le> current s" "current s < 10" and len: "length (dumps s) = 10"
    by (simp_all add: wf_dumps_def)
  have "name (dumps s ! me) \<noteq> Some l" if "me \<in> set (scan_order (current s))" for me
  proof -
    from scan_order_lt [OF c that] len have "dumps s ! me \<in> set (dumps s)" by simp
    with assms(2) show ?thesis by force
  qed
  then show ?thesis
    by (auto simp: first_match_dumps_def find_None_iff)
qed

lemma first_match_glibc_None:
  assumes "wf_glibc s" and "Some l \<notin> set (why s)"
  shows "first_match_glibc s l = None"
proof -
  from assms(1) have c: "0 \<le> current s" "current s < 10" and len: "length (why s) = 10"
    by (simp_all add: wf_glibc_def)
  have "why s ! me \<noteq> Some l" if "me \<in> set (scan_order (current s))" for me
  proof -
    from scan_order_lt [OF c that] len have "why s ! me \<in> set (why s)" by simp
    with assms(2) show ?thesis by force
  qed
  then show ?thesis
    by (auto simp: first_match_glibc_def find_None_iff)
qed

lemma print_backtrace_named_unw_store:
  assumes "store_of w = Some bt" and "wf_dumps bt"
  shows "print_backtrace_named_unw mo l w
       = (Some (case first_match_dumps bt l of
                  Some me \<Rightarrow> print_trace_unw bt (int me)
                | None \<Rightarrow> Inr []), w)"
proof -
  from assms(1) obtain ld p where
    w: "LD w = Some ld" "btrace_store ld = Some p" "deref (heap w) p = Some bt"
    by (blast dest: store_of_SomeD)
  then show ?thesis
    by (simp add: print_backtrace_named_unw_def get_trace_store_unw_def
          bstore_print_backtrace_named_unw_def named_loop_unw_entry [OF assms(2)])
qed

lemma print_backtrace_named_win_store:
  assumes "store_of w = Some bt" and "wf_dumps bt"
  shows "print_backtrace_named_win ld srcline mo l w
       = (Some (case first_match_dumps bt l of
                  Some me \<Rightarrow> print_trace_win ld srcline bt (int me)
                | None \<Rightarrow> Inr []), w)"
proof -
  from assms(1) obtain ld' p where
    w: "LD w = Some ld'" "btrace_store ld' = Some p" "deref (heap w) p = Some bt"
    by (blast dest: store_of_SomeD)
  then show ?thesis
    by (simp add: print_backtrace_named_win_def get_trace_store_win_def
          bstore_print_backtrace_named_win_def named_loop_win_entry [OF assms(2)])
qed

text \<open>
  Claim C5. On a context with a well-formed store that holds the label in no slot,
  \<open>c_backtrace_print\<close> with a text argument returns \<open>TRUE\<close> in the three variants, without a
  fault. The glibc variant writes \<open>No backtrace named ...\<close>; the libunwind and the Windows
  variant leave the loop by a bare \<open>break\<close> and write nothing.
\<close>

theorem named_lookup_never_captured:
  assumes "store_of wu = Some su" and "wf_dumps su" and "Some l \<notin> set (map name (dumps su))"
    and "store_of ww = Some sw" and "wf_dumps sw" and "Some l \<notin> set (map name (dumps sw))"
    and "store_of wg = Some sg" and "wf_glibc sg" and "Some l \<notin> set (why sg)"
  shows "c_backtrace_print (print_backtrace_named_unw mo) (Some l) wu = (Some (Inr (True, [])), wu)
         \<and> c_backtrace_print (print_backtrace_named_win ld srcline mo) (Some l) ww
             = (Some (Inr (True, [])), ww)
         \<and> c_backtrace_print (print_backtrace_named_glibc E mo) (Some l) wg
             = (Some (Inr (True, [Sdprintf ''No backtrace named %s\<newline>'' [S l]])), wg)"
  using assms
  by (simp add: c_backtrace_print_def print_backtrace_named_unw_store
        print_backtrace_named_win_store print_backtrace_named_glibc_store
        first_match_dumps_None first_match_glibc_None)

theorem named_lookup_never_captured_witness:
  "store_of (empty_world zeroed_unw) = Some zeroed_unw \<and> wf_dumps zeroed_unw
   \<and> Some ''never'' \<notin> set (map name (dumps zeroed_unw))
   \<and> store_of (empty_world zeroed_win) = Some zeroed_win \<and> wf_dumps zeroed_win
   \<and> Some ''never'' \<notin> set (map name (dumps zeroed_win))
   \<and> store_of (empty_world zeroed_glibc) = Some zeroed_glibc \<and> wf_glibc zeroed_glibc
   \<and> Some ''never'' \<notin> set (why zeroed_glibc)
   \<and> c_backtrace_print (print_backtrace_named_unw True) (Some ''never'') (empty_world zeroed_unw)
       = (Some (Inr (True, [])), empty_world zeroed_unw)
   \<and> c_backtrace_print (print_backtrace_named_win False (\<lambda>a. None) True) (Some ''never'')
        (empty_world zeroed_win)
       = (Some (Inr (True, [])), empty_world zeroed_win)
   \<and> c_backtrace_print (print_backtrace_named_glibc render_unknown True) (Some ''never'')
        (empty_world zeroed_glibc)
       = (Some (Inr (True, [Sdprintf ''No backtrace named %s\<newline>'' [S ''never'']])),
          empty_world zeroed_glibc)"
proof -
  have u: "store_of (empty_world zeroed_unw) = Some zeroed_unw" "wf_dumps zeroed_unw"
    "Some ''never'' \<notin> set (map name (dumps zeroed_unw))"
    by (simp_all add: store_of_def empty_world_def deref_def wf_dumps_def zeroed_unw_def
          list_all_iff)
  have w: "store_of (empty_world zeroed_win) = Some zeroed_win" "wf_dumps zeroed_win"
    "Some ''never'' \<notin> set (map name (dumps zeroed_win))"
    by (simp_all add: store_of_def empty_world_def deref_def wf_dumps_def zeroed_win_def
          list_all_iff)
  have g: "store_of (empty_world zeroed_glibc) = Some zeroed_glibc" "wf_glibc zeroed_glibc"
    "Some ''never'' \<notin> set (why zeroed_glibc)"
    by (simp_all add: store_of_def empty_world_def deref_def wf_glibc_def zeroed_glibc_def)
  from named_lookup_never_captured [OF u w g, of True False "\<lambda>a. None" render_unknown]
  show ?thesis using u w g by simp
qed

subsection \<open>The crash handler\<close>



lemma save_backtrace_win_at:
  assumes "get_trace_store_win mo True w = Inr (Some p, w1)"
    and "deref (heap w1) p = Some s0" and "wf_dumps s0"
  shows "save_backtrace_win cas ld mo wk l w
       = Inr (Some p, w1\<lparr>heap := (heap w1)[p := Some (put_dumps
           ((dumps s0 ! nat (current s0))
              \<lparr>frame := snd (backtrace_win ld (wk\<lparr>pExceptionInfo := False\<rparr>)
                          (frame (dumps s0 ! nat (current s0)))),
               depth := fst (backtrace_win ld (wk\<lparr>pExceptionInfo := False\<rparr>)
                          (frame (dumps s0 ! nat (current s0)))),
               name := Some l\<rparr>) s0)]\<rparr>)"
proof -
  from assms(3) have c: "0 \<le> current s0" "current s0 < 10" by (simp_all add: wf_dumps_def)
  then show ?thesis
    by (simp add: save_backtrace_win_def win_save_backtrace_def assms(1,2)
          next_btrace_id_in_range [OF c] Let_def put_dumps_def split_beta)
qed
































subsection \<open>Concurrent slot reservation\<close>

lemma ndone_update_same:
  "t < length cs \<Longrightarrow> \<not> returned (cs ! t) \<Longrightarrow> \<not> returned c \<Longrightarrow> ndone (cs[t := c]) = ndone cs"
proof (induction cs arbitrary: t)
  case Nil
  then show ?case by simp
next
  case (Cons a cs)
  then show ?case by (cases t) (auto simp: ndone_def)
qed

lemma ndone_update_Done:
  "t < length cs \<Longrightarrow> \<not> returned (cs ! t) \<Longrightarrow> ndone (cs[t := Done i]) = Suc (ndone cs)"
proof (induction cs arbitrary: t)
  case Nil
  then show ?case by simp
next
  case (Cons a cs)
  then show ?case by (cases t) (auto simp: ndone_def)
qed

lemma ndone_less:
  "t < length cs \<Longrightarrow> \<not> returned (cs ! t) \<Longrightarrow> ndone cs < length cs"
  unfolding ndone_def
  by (rule length_filter_less [of "cs ! t"]) simp_all

lemma ring_distinct_behind:
  "0 \<le> m \<Longrightarrow> m < 10 \<Longrightarrow> 1 \<le> k \<Longrightarrow> k \<le> 9 \<Longrightarrow> (m - k) mod 10 \<noteq> (m::int)"
  by (simp add: mod10_cases)

lemma ring_shift_behind:
  "0 \<le> m \<Longrightarrow> m < 10 \<Longrightarrow> (m - k) mod 10 = ((if m + 1 = 10 then 0 else m + 1) - (k + 1)) mod (10::int)"
proof -
  have "((m + 1) mod 10 - (k + 1)) mod 10 = (m - k) mod 10"
    by (simp add: mod_simps)
  moreover assume "0 \<le> m" "m < 10"
  then have "(m + 1) mod 10 = (if m + 1 = 10 then 0 else m + 1)"
    by (simp add: mod10_pos)
  ultimately show ?thesis by simp
qed

lemma cas_invI:
  assumes "0 \<le> mem" and "mem < 10"
    and "\<And>u i. u < length cs \<Longrightarrow> cs ! u = Done i \<Longrightarrow>
          \<exists>k. 1 \<le> k \<and> k \<le> ndone cs \<and> i = (mem - int k) mod 10"
    and "\<And>t1 t2 i. t1 < length cs \<Longrightarrow> t2 < length cs \<Longrightarrow> t1 \<noteq> t2 \<Longrightarrow>
          cs ! t1 = Done i \<Longrightarrow> cs ! t2 \<noteq> Done i"
  shows "cas_inv (mem, cs)"
  unfolding cas_inv_def fst_conv snd_conv
  using assms by blast

lemma cas_invD:
  assumes "cas_inv (mem, cs)"
  shows "0 \<le> mem" and "mem < 10"
    and "\<And>u i. u < length cs \<Longrightarrow> cs ! u = Done i \<Longrightarrow>
          \<exists>k. 1 \<le> k \<and> k \<le> ndone cs \<and> i = (mem - int k) mod 10"
    and "\<And>t1 t2 i. t1 < length cs \<Longrightarrow> t2 < length cs \<Longrightarrow> t1 \<noteq> t2 \<Longrightarrow>
          cs ! t1 = Done i \<Longrightarrow> cs ! t2 \<noteq> Done i"
  using assms unfolding cas_inv_def fst_conv snd_conv by blast+

lemma cas_inv_local:
  assumes inv: "cas_inv (mem, cs)" and t: "t < length cs"
    and old: "\<not> returned (cs ! t)" and new: "\<not> returned c"
  shows "cas_inv (mem, cs[t := c])"
proof (rule cas_invI)
  note d = cas_invD [OF inv]
  show "0 \<le> mem" "mem < 10" by (fact d)+
  have n: "ndone (cs[t := c]) = ndone cs"
    using t old new by (rule ndone_update_same)
  have same: "cs ! u = Done i" if "u < length (cs[t := c])" "cs[t := c] ! u = Done i" for u i
  proof (cases "u = t")
    case True
    with that t new show ?thesis by auto
  next
    case False
    with that show ?thesis by simp
  qed
  show "\<exists>k. 1 \<le> k \<and> k \<le> ndone (cs[t := c]) \<and> i = (mem - int k) mod 10"
    if "u < length (cs[t := c])" "cs[t := c] ! u = Done i" for u i
    unfolding n using d(3) [of u i] same [OF that] that(1) by simp
  show "cs[t := c] ! t2 \<noteq> Done i"
    if "t1 < length (cs[t := c])" "t2 < length (cs[t := c])" "t1 \<noteq> t2"
      "cs[t := c] ! t1 = Done i" for t1 t2 i
  proof
    assume "cs[t := c] ! t2 = Done i"
    from same [OF that(2) this] same [OF that(1,4)] that(1-3) d(4) [of t1 t2 i]
    show False by simp
  qed
qed

lemma cas_inv_success:
  assumes inv: "cas_inv (mem, cs)" and t: "t < length cs"
    and old: "\<not> returned (cs ! t)" and len: "length cs \<le> SAVE_TRACES"
  shows "cas_inv (if mem + 1 = 10 then 0 else mem + 1, cs[t := Done mem])"
proof (rule cas_invI)
  note d = cas_invD [OF inv]
  note m = d(1,2)
  let ?mem' = "if mem + 1 = 10 then 0 else mem + 1"
  let ?cs' = "cs[t := Done mem]"
  show "0 \<le> ?mem'" "?mem' < 10" using m by auto
  have n: "ndone ?cs' = Suc (ndone cs)"
    using t old by (rule ndone_update_Done)
  from ndone_less [OF t old] len have n9: "ndone cs \<le> 9" by simp
  have new: "mem = (?mem' - int 1) mod 10"
    using ring_shift_behind [OF m, of 0] m by (simp add: mod10_pos)
  have fresh: "cs ! u \<noteq> Done mem" if "u < length cs" for u
  proof
    assume "cs ! u = Done mem"
    from d(3) [OF that this] obtain k where k: "1 \<le> k" "k \<le> ndone cs"
      and eq: "mem = (mem - int k) mod 10"
      by blast
    from k n9 have "1 \<le> int k" "int k \<le> 9" by simp_all
    from ring_distinct_behind [OF m this] eq show False by simp
  qed
  show "\<exists>k. 1 \<le> k \<and> k \<le> ndone ?cs' \<and> i = (?mem' - int k) mod 10"
    if u: "u < length ?cs'" and dn: "?cs' ! u = Done i" for u i
  proof (cases "u = t")
    case True
    with dn t have "i = mem" by simp
    with new have "1 \<le> (1::nat) \<and> 1 \<le> ndone ?cs' \<and> i = (?mem' - int 1) mod 10"
      unfolding n by simp
    then show ?thesis by (rule exI)
  next
    case False
    with u dn have "u < length cs" "cs ! u = Done i" by simp_all
    from d(3) [OF this] obtain k where k: "1 \<le> k" "k \<le> ndone cs"
      and eq: "i = (mem - int k) mod 10"
      by blast
    from eq ring_shift_behind [OF m, of "int k"]
    have "i = (?mem' - int (Suc k)) mod 10" by (simp add: algebra_simps)
    with k have "1 \<le> Suc k \<and> Suc k \<le> ndone ?cs' \<and> i = (?mem' - int (Suc k)) mod 10"
      unfolding n by simp
    then show ?thesis by (rule exI)
  qed
  show "?cs' ! t2 \<noteq> Done i"
    if "t1 < length ?cs'" "t2 < length ?cs'" "t1 \<noteq> t2" "?cs' ! t1 = Done i" for t1 t2 i
  proof (cases "t1 = t")
    case True
    with that t have "i = mem" by simp
    with that True fresh [of t2] show ?thesis by simp
  next
    case False
    with that have 1: "t1 < length cs" "cs ! t1 = Done i" by simp_all
    show ?thesis
    proof (cases "t2 = t")
      case True
      with fresh [OF 1(1)] 1(2) t show ?thesis by auto
    next
      case False
      with that d(4) [OF 1(1) _ _ 1(2), of t2] show ?thesis by simp
    qed
  qed
qed

lemma cas_inv_step:
  assumes inv: "cas_inv (mem, cs)" and len: "length cs \<le> SAVE_TRACES"
  shows "cas_inv (cas_step t (mem, cs)) \<and> length (snd (cas_step t (mem, cs))) = length cs"
proof (cases "t < length cs")
  case False
  with inv show ?thesis by (simp add: cas_step_def)
next
  case t: True
  show ?thesis
  proof (cases "cs ! t")
    case Start
    with cas_inv_local [OF inv t, of "Loaded mem"] t show ?thesis
      by (simp add: cas_step_def)
  next
    case (Done i)
    with t inv show ?thesis by (simp add: cas_step_def)
  next
    case (Loaded cur)
    show ?thesis
    proof (cases "mem = cur")
      case False
      with cas_inv_local [OF inv t, of Start] t Loaded show ?thesis
        by (simp add: cas_step_def COMPARE_AND_SWAP_def Let_def)
    next
      case True
      have "cas_step t (mem, cs) = (if mem + 1 = 10 then 0 else mem + 1, cs[t := Done mem])"
        using t Loaded True by (simp add: cas_step_def COMPARE_AND_SWAP_def Let_def)
      moreover have "cas_inv (if mem + 1 = 10 then 0 else mem + 1, cs[t := Done mem])"
        using Loaded by (intro cas_inv_success [OF inv t _ len]) simp
      ultimately show ?thesis by (simp only: snd_conv length_list_update simp_thms)
    qed
  qed
qed

lemma cas_inv_run:
  assumes "cas_inv st" and "length (snd st) \<le> SAVE_TRACES"
  shows "cas_inv (run_schedule sched st) \<and> length (snd (run_schedule sched st)) = length (snd st)"
  using assms
proof (induction sched arbitrary: st)
  case Nil
  then show ?case by (simp add: run_schedule_def)
next
  case (Cons t sched)
  obtain mem cs where st: "st = (mem, cs)" by (cases st)
  from cas_inv_step [of mem cs t] Cons.prems st
  have 1: "cas_inv (cas_step t st)" "length (snd (cas_step t st)) = length (snd st)"
    by simp_all
  with Cons.prems have "length (snd (cas_step t st)) \<le> 10" by simp
  from Cons.IH [OF 1(1) this] 1(2) show ?case
    by (simp add: run_schedule_def)
qed

lemma cas_inv_init:
  "0 \<le> c0 \<Longrightarrow> c0 < SAVE_TRACES \<Longrightarrow> cas_inv (c0, replicate M Start)"
  by (rule cas_invI) simp_all

text \<open>
  Claim C10. Let \<open>M \<le> SAVE_TRACES\<close> callers run the compare-and-swap path of
  \<open>next_btrace_id\<close> on one store, their accesses to the cursor interleaved in any order,
  from a cursor in \<open>[0, SAVE_TRACES - 1]\<close>. Whenever two different callers have returned,
  they hold different indices; every index returned and the cursor stay in
  \<open>[0, SAVE_TRACES - 1]\<close>.
\<close>

theorem concurrent_reservations_distinct:
  assumes "0 \<le> c0" and "c0 < SAVE_TRACES" and "M \<le> SAVE_TRACES"
    and "run_schedule sched (c0, replicate M Start) = (mem, cs)"
    and "t1 < M" and "t2 < M" and "t1 \<noteq> t2"
    and "cs ! t1 = Done i1" and "cs ! t2 = Done i2"
  shows "i1 \<noteq> i2 \<and> 0 \<le> i1 \<and> i1 < SAVE_TRACES \<and> 0 \<le> mem \<and> mem < SAVE_TRACES"
proof -
  from cas_inv_run [OF cas_inv_init [OF assms(1,2), of M], of sched] assms(3,4)
  have inv: "cas_inv (mem, cs)" and len: "length cs = M"
    by simp_all
  note d = cas_invD [OF inv]
  from d(4) [of t1 t2 i1] len assms(5-9) have "i1 \<noteq> i2"
    by auto
  moreover from d(3) [of t1 i1] len assms(5,8) obtain k where "i1 = (mem - int k) mod 10"
    by auto
  then have "0 \<le> i1" "i1 < 10" by simp_all
  moreover note d(1,2)
  ultimately show ?thesis by simp
qed

theorem concurrent_reservations_distinct_witness:
  "(0::int) \<le> 9 \<and> (9::int) < SAVE_TRACES \<and> (2::nat) \<le> SAVE_TRACES
   \<and> run_schedule [0, 1, 0, 1, 1, 1] (9, replicate 2 Start) = (1, [Done 9, Done 0])
   \<and> (0::nat) < 2 \<and> (1::nat) < 2 \<and> (0::nat) \<noteq> 1
   \<and> [Done 9, Done 0] ! 0 = Done 9 \<and> [Done 9, Done 0] ! 1 = Done 0
   \<and> (9::int) \<noteq> 0"
proof -
  have run: "run_schedule [0, 1, 0, 1, 1, 1] (9, replicate 2 Start) = (1, [Done 9, Done 0])"
    by (simp add: run_schedule_def cas_step_def COMPARE_AND_SWAP_def Let_def numeral_2_eq_2)
  from concurrent_reservations_distinct [OF _ _ _ run, of 0 1 9 0]
  show ?thesis using run by simp
qed

subsection \<open>Further observations\<close>

text \<open>In the Windows variant, once the context has a store, \<open>get_trace_store(TRUE)\<close> allocates a
  new private store for every capture: the trace is written there, and the store of the
  context, which \<open>print_backtrace\<close> reads, does not change.\<close>

lemma save_backtrace_win_private:
  assumes "LD w = Some ld" and "btrace_store ld = Some p" and "deref (heap w) p = Some s"
  shows "\<exists>w'. save_backtrace_win cas ld' True wk l w = Inr (Some (length (heap w)), w')
           \<and> length (heap w) \<noteq> p \<and> LD w' = LD w \<and> store_of w' = Some s"
proof -
  let ?q = "length (heap w)"
  let ?w1 = "w\<lparr>heap := heap w @ [Some zeroed_win]\<rparr>"
  have g: "get_trace_store_win True True w = Inr (Some ?q, ?w1)"
    using assms(1,2) by (simp add: get_trace_store_win_def malloc_def)
  have d: "deref (heap ?w1) ?q = Some zeroed_win"
    by (simp add: deref_def)
  from assms(3) have p: "p < ?q" by (rule deref_lt)
  note save = save_backtrace_win_at [OF g d wf_zeroed_win', of cas ld' wk l]
  have "store_of (?w1\<lparr>heap := (heap ?w1)[?q := Some x]\<rparr>) = Some s" for x
    using assms p by (simp add: store_of_def deref_def nth_append)
  with save p assms(1) show ?thesis by auto
qed

text \<open>Without a store, the lookup by label writes nothing, in the glibc variant too.\<close>

lemma print_backtrace_named_glibc_no_store:
  assumes "no_store w"
  shows "print_backtrace_named_glibc E False l w = (Some (Inr []), w)"
  using assms
  by (auto simp: no_store_def print_backtrace_named_glibc_def get_trace_store_glibc_def
        malloc_def bstore_print_backtrace_named_glibc_def split: option.splits)

end
